theory Spec2Isabelle
  imports Main "HOL-Library.Sublist"
begin

section \<open>Python values used by \<open>ai_safety_digest.py\<close>\<close>

text \<open>
  A Python \<open>str\<close> is modelled as a HOL \<open>string\<close>; one \<open>char\<close> stands for one code
  point (the code points 0..255), so \<open>length\<close> is Python's \<open>len\<close> and \<open>take n\<close> is the
  slice \<open>s[:n]\<close>. An instance of \<open>Exception\<close> raised by a library call is a value
  \<open>Exception msg\<close>, where \<open>msg\<close> is what \<open>str(e)\<close> returns; a Python exception built
  without arguments has the message \<open>''''\<close>. A call that may raise returns \<open>exn + 'a\<close>,
  with \<open>Inl\<close> for the raise. Signals outside the \<open>Exception\<close> hierarchy
  (\<open>KeyboardInterrupt\<close>, \<open>SystemExit\<close>) are not modelled.
\<close>

datatype exn = Exception (str_of: string)

text \<open>\<open>sub in s\<close> for strings.\<close>

fun contains :: "string \<Rightarrow> string \<Rightarrow> bool" where
  "contains sub [] = (sub = [])"
| "contains sub (c # cs) = (prefix sub (c # cs) \<or> contains sub cs)"

text \<open>\<open>s.endswith(suf)\<close>.\<close>

definition endswith :: "string \<Rightarrow> string \<Rightarrow> bool" where
  "endswith s suf = suffix suf s"

text \<open>
  \<open>s.replace(old, new)\<close> for a non-empty \<open>old\<close> (the only use in the source is
  \<open>'/abs/'\<close>): occurrences are replaced from the left and do not overlap.
\<close>

fun replace :: "string \<Rightarrow> string \<Rightarrow> string \<Rightarrow> string" where
  "replace old new [] = []"
| "replace old new (c # cs) =
     (if prefix old (c # cs) then new @ replace old new (drop (length old - 1) cs)
      else c # replace old new cs)"

section \<open>The outside world of the Document Resolver\<close>

text \<open>
  \<open>response\<close> is what \<open>requests.get\<close> returns: \<open>raise_for_status\<close> is the exception
  that \<open>response.raise_for_status()\<close> raises (\<open>None\<close> when the status is fine),
  \<open>resp_content\<close> is \<open>response.content\<close> and \<open>resp_text\<close> is \<open>response.text\<close>.
\<close>

record response =
  raise_for_status :: "exn option"
  resp_content :: string
  resp_text :: string

text \<open>A page of an opened PDF: what \<open>page.extract_text()\<close> does (raise, \<open>None\<close>, or text).\<close>

type_synonym page = "exn + string option"

text \<open>
  The library calls of the resolver, as functions of their arguments:
  \<^item> \<open>requests_get u hs\<close>: \<open>requests.get(u, timeout=30, headers=hs)\<close>;
  \<^item> \<open>open_wb p\<close>: the exception of \<open>open(p, 'wb')\<close>, \<open>None\<close> when the file opens
    (it is then created or truncated, and the write that follows fills it);
  \<^item> \<open>import_pdfplumber\<close>, \<open>import_bs4\<close>: the exception of the local \<open>import\<close>;
  \<^item> \<open>pdfplumber_open bs\<close>: \<open>pdfplumber.open\<close> on a file holding the bytes \<open>bs\<close>;
  \<^item> \<open>os_remove p\<close>: the exception of \<open>os.remove(p)\<close>, \<open>None\<close> when the file is
    removed;
  \<^item> \<open>soup_get_text html\<close>: \<open>BeautifulSoup(html, 'html.parser')\<close>, the removal of the
    \<open>script\<close> and \<open>style\<close> elements and \<open>get_text()\<close>;
  \<^item> \<open>print_out s\<close>: the exception of \<open>print(s)\<close>, \<open>None\<close> when the line is written.
\<close>

record env =
  requests_get :: "string \<Rightarrow> (string \<times> string) list \<Rightarrow> exn + response"
  open_wb :: "string \<Rightarrow> exn option"
  import_pdfplumber :: "exn option"
  pdfplumber_open :: "string \<Rightarrow> exn + page list"
  os_remove :: "string \<Rightarrow> exn option"
  import_bs4 :: "exn option"
  soup_get_text :: "string \<Rightarrow> exn + string"
  print_out :: "string \<Rightarrow> exn option"

text \<open>The file system: the bytes stored under each path.\<close>

type_synonym filesystem = "string \<rightharpoonup> string"

section \<open>RetrievalOutcome\<close>

text \<open>
  The dictionary returned by the resolver. The key \<open>'error'\<close> is present only in a
  failure: \<open>error = None\<close> is its absence.
\<close>

datatype kind = pdf | webpage

record outcome =
  url :: string
  type :: kind
  content :: string
  success :: bool
  error :: "string option"

section \<open>Whitespace handling of \<open>str\<close>\<close>

text \<open>
  \<open>is_space c\<close> is \<open>c.isspace()\<close> and \<open>is_linebreak c\<close> says that \<open>str.splitlines\<close>
  ends a line at \<open>c\<close>, both for the code points 0..255.
\<close>

definition is_space :: "char \<Rightarrow> bool" where
  "is_space c = (c \<in> {CHR 0x09, CHR 0x0A, CHR 0x0B, CHR 0x0C, CHR 0x0D, CHR 0x1C, CHR 0x1D,
     CHR 0x1E, CHR 0x1F, CHR 0x20, CHR 0x85, CHR 0xA0})"

definition is_linebreak :: "char \<Rightarrow> bool" where
  "is_linebreak c = (c \<in> {CHR 0x0A, CHR 0x0B, CHR 0x0C, CHR 0x0D, CHR 0x1C, CHR 0x1D,
     CHR 0x1E, CHR 0x85})"

text \<open>\<open>s.strip()\<close>: leading and trailing whitespace removed.\<close>

definition strip :: "string \<Rightarrow> string" where
  "strip s = rev (dropWhile is_space (rev (dropWhile is_space s)))"

text \<open>Puts a character in front of the first piece of a list of pieces.\<close>

fun cons_first :: "char \<Rightarrow> string list \<Rightarrow> string list" where
  "cons_first c [] = [[c]]"
| "cons_first c (l # ls) = (c # l) # ls"

text \<open>
  \<open>s.splitlines()\<close>: the lines of \<open>s\<close> without their terminators; \<open>\r\n\<close> is one
  terminator, and a terminator at the very end opens no further line.
\<close>

fun splitlines :: "string \<Rightarrow> string list" where
  "splitlines [] = []"
| "splitlines [c] = (if is_linebreak c then [[]] else [[c]])"
| "splitlines (c # d # cs) =
     (if c = CHR 0x0D \<and> d = CHR 0x0A then [] # splitlines cs
      else if is_linebreak c then [] # splitlines (d # cs)
      else cons_first c (splitlines (d # cs)))"

text \<open>
  \<open>s.split("  ")\<close>: the pieces of \<open>s\<close> between occurrences of two spaces, found from
  the left without overlap; the result always has at least one piece.
\<close>

fun split_2sp :: "string \<Rightarrow> string list" where
  "split_2sp [] = [[]]"
| "split_2sp [c] = [[c]]"
| "split_2sp (c # d # cs) =
     (if c = CHR '' '' \<and> d = CHR '' '' then [] # split_2sp cs
      else cons_first c (split_2sp (d # cs)))"

text \<open>\<open>'\n'.join(xs)\<close>.\<close>

fun join_nl :: "string list \<Rightarrow> string" where
  "join_nl [] = []"
| "join_nl [x] = x"
| "join_nl (x # y # ys) = x @ CHR 0x0A # join_nl (y # ys)"

section \<open>Document Resolver\<close>

definition pdf_path :: string where
  "pdf_path = ''/tmp/temp_paper.pdf''"

text \<open>
  The loop \<open>for page in pdf.pages: text += page.extract_text() or ""\<close>: the first page
  that raises ends it.
\<close>

fun extract_pages :: "page list \<Rightarrow> string \<Rightarrow> exn + string" where
  "extract_pages [] text = Inr text"
| "extract_pages (p # ps) text =
     (case p of
        Inl e \<Rightarrow> Inl e
      | Inr t \<Rightarrow> extract_pages ps (text @ (case t of None \<Rightarrow> [] | Some s \<Rightarrow> s)))"

text \<open>
  The \<open>try\<close> block of \<open>_download_pdf\<close>: the value it returns or the exception that
  leaves it, with the file system as the block left it. \<open>pdfplumber.open(pdf_path)\<close>
  reads the bytes that the file system holds under \<open>pdf_path\<close>.
\<close>

definition download_pdf_try ::
  "env \<Rightarrow> filesystem \<Rightarrow> string \<Rightarrow> string \<Rightarrow> (exn + outcome) \<times> filesystem" where
  "download_pdf_try E fs pdf_url original_url =
     (case requests_get E pdf_url [] of
        Inl e \<Rightarrow> (Inl e, fs)
      | Inr response \<Rightarrow>
     (case raise_for_status response of
        Some e \<Rightarrow> (Inl e, fs)
      | None \<Rightarrow>
     (case open_wb E pdf_path of
        Some e \<Rightarrow> (Inl e, fs)
      | None \<Rightarrow>
     (let fs1 = fs(pdf_path \<mapsto> resp_content response) in
     (case import_pdfplumber E of
        Some e \<Rightarrow> (Inl e, fs1)
      | None \<Rightarrow>
     (case (case fs1 pdf_path of
              None \<Rightarrow> Inl (Exception ''No such file or directory'')
            | Some bs \<Rightarrow> pdfplumber_open E bs) of
        Inl e \<Rightarrow> (Inl e, fs1)
      | Inr pages \<Rightarrow>
     (case extract_pages pages [] of
        Inl e \<Rightarrow> (Inl e, fs1)
      | Inr text \<Rightarrow>
     (case os_remove E pdf_path of
        Some e \<Rightarrow> (Inl e, fs1)
      | None \<Rightarrow>
         (Inr \<lparr>url = original_url, type = pdf, content = take 100000 text,
               success = True, error = None\<rparr>,
          fs1(pdf_path := None))))))))))"

text \<open>
  \<open>_download_pdf\<close>: the \<open>try\<close> block under its \<open>except Exception as e\<close> handler.
  The handler prints before it returns, and an exception of this \<open>print\<close> leaves the
  function.
\<close>

definition download_pdf ::
  "env \<Rightarrow> filesystem \<Rightarrow> string \<Rightarrow> string \<Rightarrow> (exn + outcome) \<times> filesystem" where
  "download_pdf E fs pdf_url original_url =
     (case download_pdf_try E fs pdf_url original_url of
        (Inl e, fs') \<Rightarrow>
          (case print_out E (''Error downloading PDF '' @ pdf_url @ '': '' @ str_of e) of
             Some e' \<Rightarrow> (Inl e', fs')
           | None \<Rightarrow>
               (Inr \<lparr>url = original_url, type = pdf, content = [], success = False,
                     error = Some (str_of e)\<rparr>, fs'))
      | (Inr r, fs') \<Rightarrow> (Inr r, fs'))"

text \<open>
  The whitespace clean-up of \<open>_fetch_webpage\<close>: every line stripped, cut at double
  spaces, every piece stripped, the non-empty pieces joined by newlines.
\<close>

definition chunks_of :: "string \<Rightarrow> string list" where
  "chunks_of text =
     filter (\<lambda>chunk. chunk \<noteq> [])
       (concat (map (\<lambda>line. map strip (split_2sp line)) (map strip (splitlines text))))"

definition clean_whitespace :: "string \<Rightarrow> string" where
  "clean_whitespace text = join_nl (chunks_of text)"

text \<open>The \<open>try\<close> block of \<open>_fetch_webpage\<close>.\<close>

definition fetch_webpage_try :: "env \<Rightarrow> string \<Rightarrow> exn + outcome" where
  "fetch_webpage_try E u =
     (case requests_get E u [(''User-Agent'', ''Mozilla/5.0'')] of
        Inl e \<Rightarrow> Inl e
      | Inr response \<Rightarrow>
     (case raise_for_status response of
        Some e \<Rightarrow> Inl e
      | None \<Rightarrow>
     (case import_bs4 E of
        Some e \<Rightarrow> Inl e
      | None \<Rightarrow>
     (case soup_get_text E (resp_text response) of
        Inl e \<Rightarrow> Inl e
      | Inr text \<Rightarrow>
         Inr \<lparr>url = u, type = webpage, content = take 50000 (clean_whitespace text),
              success = True, error = None\<rparr>))))"

text \<open>\<open>_fetch_webpage\<close>, with the \<open>print\<close> of its handler; it touches no file.\<close>

definition fetch_webpage ::
  "env \<Rightarrow> filesystem \<Rightarrow> string \<Rightarrow> (exn + outcome) \<times> filesystem" where
  "fetch_webpage E fs u =
     (case fetch_webpage_try E u of
        Inl e \<Rightarrow>
          (case print_out E (''Error fetching webpage '' @ u @ '': '' @ str_of e) of
             Some e' \<Rightarrow> (Inl e', fs)
           | None \<Rightarrow>
               (Inr \<lparr>url = u, type = webpage, content = [], success = False,
                     error = Some (str_of e)\<rparr>, fs))
      | Inr r \<Rightarrow> (Inr r, fs))"

text \<open>The URL that \<open>download_paper_content\<close> hands to \<open>_download_pdf\<close> for an arXiv reference.\<close>

definition arxiv_pdf_url :: "string \<Rightarrow> string" where
  "arxiv_pdf_url u =
     (if contains ''/abs/'' u then replace ''/abs/'' ''/pdf/'' u @ ''.pdf''
      else if contains ''/pdf/'' u then (if endswith u ''.pdf'' then u else u @ ''.pdf'')
      else u)"

text \<open>
  The \<open>try\<close> block that \<open>download_paper_content\<close> reaches for a reference, through
  \<open>_download_pdf\<close> or \<open>_fetch_webpage\<close>: the resolution proper, before any handler.
\<close>

definition resolution_try ::
  "env \<Rightarrow> filesystem \<Rightarrow> string \<Rightarrow> (exn + outcome) \<times> filesystem" where
  "resolution_try E fs u =
     (if contains ''arxiv.org'' u then download_pdf_try E fs (arxiv_pdf_url u) u
      else if endswith u ''.pdf'' then download_pdf_try E fs u u
      else (fetch_webpage_try E u, fs))"

text \<open>
  \<open>download_paper_content\<close>. Its first statement is a \<open>print\<close> outside every \<open>try\<close>,
  so an exception of it leaves the function.
\<close>

definition download_paper_content ::
  "env \<Rightarrow> filesystem \<Rightarrow> string \<Rightarrow> (exn + outcome) \<times> filesystem" where
  "download_paper_content E fs u =
     (case print_out E (''Processing URL: '' @ u) of
        Some e \<Rightarrow> (Inl e, fs)
      | None \<Rightarrow>
          if contains ''arxiv.org'' u then download_pdf E fs (arxiv_pdf_url u) u
          else if endswith u ''.pdf'' then download_pdf E fs u u
          else fetch_webpage E fs u)"

section \<open>Aggregation Pipeline\<close>

text \<open>
  The loop of \<open>main\<close> over the references: it has no handler of its own, so an
  exception of \<open>download_paper_content\<close> ends it.
\<close>

fun resolve_loop ::
  "env \<Rightarrow> filesystem \<Rightarrow> string list \<Rightarrow> outcome list \<Rightarrow> (exn + outcome list) \<times> filesystem" where
  "resolve_loop E fs [] papers = (Inr papers, fs)"
| "resolve_loop E fs (u # us) papers =
     (case download_paper_content E fs u of
        (Inl e, fs') \<Rightarrow> (Inl e, fs')
      | (Inr paper_content, fs') \<Rightarrow> resolve_loop E fs' us (papers @ [paper_content]))"

text \<open>Step 3 of \<open>main\<close>: \<open>for url in slack_urls[:50]\<close>.\<close>

definition main_papers ::
  "env \<Rightarrow> filesystem \<Rightarrow> string list \<Rightarrow> (exn + outcome list) \<times> filesystem" where
  "main_papers E fs slack_urls = resolve_loop E fs (take 50 slack_urls) []"

section \<open>Reference Collector\<close>

text \<open>
  The Slack client. \<open>conversations_list\<close> is the answer to
  \<open>client.conversations_list()\<close>, the list under its key \<open>'channels'\<close>.
  \<open>conversations_history c oldest cursor\<close> is the answer to
  \<open>client.conversations_history(channel=c, oldest=oldest, cursor=cursor)\<close>: one
  bounded page of the channel's messages not older than \<open>oldest\<close>, with \<open>has_more\<close>
  and \<open>next_cursor\<close> telling whether and where the history goes on.
\<close>

record channel =
  ch_name :: string
  ch_id :: string

record message =
  msg_text :: "string option"

record history =
  messages :: "message list"
  has_more :: bool
  next_cursor :: "string option"

record slack =
  conversations_list :: "exn + channel list"
  conversations_history :: "string \<Rightarrow> string \<Rightarrow> string option \<Rightarrow> exn + history"

text \<open>
  The clock of the run, read through the two expressions of the source that use it,
  in the local time of the machine: \<open>oldest_days_ago n\<close> is
  \<open>str((datetime.now() - timedelta(days=n)).timestamp())\<close> and \<open>date_days_ago n\<close> is
  \<open>(datetime.now() - timedelta(days=n)).strftime('%Y/%m/%d')\<close>.
\<close>

record clock =
  oldest_days_ago :: "int \<Rightarrow> string"
  date_days_ago :: "int \<Rightarrow> string"

text \<open>What the run prints for the operator about its counts.\<close>

datatype event =
    ChannelNotFound string
  | FoundUniqueUrls nat
  | GmailNotConfigured
  | FoundNewsletters nat
  | ProcessedPapers nat

text \<open>The loop over \<open>channels['channels']\<close>: the id of the first channel with the name.\<close>

fun find_channel :: "channel list \<Rightarrow> string \<Rightarrow> string option" where
  "find_channel [] channel_name = None"
| "find_channel (c # cs) channel_name =
     (if ch_name c = channel_name then Some (ch_id c) else find_channel cs channel_name)"

text \<open>
  The characters that the group of \<open>url_pattern\<close> accepts one at a time:
  \<open>[a-zA-Z]\<close>, \<open>[0-9]\<close>, \<open>[$-_@.&+]\<close> (the range from \<open>$\<close> to \<open>_\<close> and four more) and
  \<open>[!*\\(\\),]\<close>. The fifth alternative, \<open>%\<close> and two hexadecimal digits, accepts only
  characters of the first three.
\<close>

definition url_char :: "char \<Rightarrow> bool" where
  "url_char c =
     (let n = (of_char c :: nat) in
        (0x61 \<le> n \<and> n \<le> 0x7A) \<or> (0x41 \<le> n \<and> n \<le> 0x5A) \<or> (0x30 \<le> n \<and> n \<le> 0x39) \<or>
        (0x24 \<le> n \<and> n \<le> 0x5F) \<or> c \<in> {CHR ''@'', CHR ''.'', CHR ''&'', CHR ''+''} \<or>
        c \<in> {CHR ''!'', CHR ''*'', CHR 0x5C, CHR ''('', CHR '')'', CHR '',''})"

text \<open>
  \<open>re.findall(url_pattern, text)\<close>: the matches from left to right, without overlap.
  A match is \<open>http\<close>, an optional \<open>s\<close>, \<open>://\<close> and the longest non-empty run of
  \<open>url_char\<close>s; the search goes on behind a match, or one character further where
  there is none.
\<close>

function findall_urls :: "string \<Rightarrow> string list" where
  "findall_urls [] = []"
| "findall_urls (c # cs) =
     (if prefix ''https://'' (c # cs) \<and> takeWhile url_char (drop 7 cs) \<noteq> []
      then (''https://'' @ takeWhile url_char (drop 7 cs))
             # findall_urls (dropWhile url_char (drop 7 cs))
      else if prefix ''http://'' (c # cs) \<and> takeWhile url_char (drop 6 cs) \<noteq> []
      then (''http://'' @ takeWhile url_char (drop 6 cs))
             # findall_urls (dropWhile url_char (drop 6 cs))
      else findall_urls cs)"
  by pat_completeness auto
termination
  by (relation "measure length")
     (auto intro!: le_imp_less_Suc order_trans [OF length_dropWhile_le])

text \<open>\<open>message.get('text', '')\<close>.\<close>

definition get_text :: "message \<Rightarrow> string" where
  "get_text m = (case msg_text m of None \<Rightarrow> [] | Some t \<Rightarrow> t)"

text \<open>The loop that collects the URLs of all messages of a page.\<close>

definition extract_urls :: "message list \<Rightarrow> string list" where
  "extract_urls ms = concat (map (\<lambda>m. findall_urls (get_text m)) ms)"

text \<open>The loop that removes duplicates, with its set \<open>seen\<close> and its list \<open>unique_urls\<close>.\<close>

fun unique_loop :: "string list \<Rightarrow> string set \<Rightarrow> string list \<Rightarrow> string list" where
  "unique_loop [] seen unique_urls = unique_urls"
| "unique_loop (u # us) seen unique_urls =
     (if u \<notin> seen then unique_loop us (insert u seen) (unique_urls @ [u])
      else unique_loop us seen unique_urls)"

text \<open>
  \<open>fetch_slack_urls\<close>. It asks for the history once, without a cursor, and reads
  the \<open>messages\<close> of the answer.
\<close>

definition fetch_slack_urls ::
  "slack \<Rightarrow> clock \<Rightarrow> string \<Rightarrow> int \<Rightarrow> event list \<times> (exn + string list)" where
  "fetch_slack_urls S clk channel_name days_back =
     (case conversations_list S of
        Inl e \<Rightarrow> ([], Inl e)
      | Inr channels \<Rightarrow>
     (case find_channel channels channel_name of
        None \<Rightarrow> ([ChannelNotFound channel_name], Inr [])
      | Some channel_id \<Rightarrow>
          if channel_id = [] then ([ChannelNotFound channel_name], Inr [])
          else
     (case conversations_history S channel_id (oldest_days_ago clk days_back) None of
        Inl e \<Rightarrow> ([], Inl e)
      | Inr result \<Rightarrow>
         (let unique_urls = unique_loop (extract_urls (messages result)) {} []
          in ([FoundUniqueUrls (length unique_urls)], Inr unique_urls)))))"

section \<open>Newsletter Collector\<close>

text \<open>
  A part of a Gmail payload: its \<open>mimeType\<close> and the entry \<open>'data'\<close> of its \<open>body\<close>
  (\<open>None\<close> when the body has no such key). A payload has \<open>headers\<close>, a \<open>body\<close> and,
  when the message is multi-part, \<open>parts\<close>.
\<close>

record msg_part =
  mimeType :: string
  part_data :: "string option"

record payload =
  headers :: "(string \<times> string) list"
  parts :: "msg_part list option"
  body_data :: "string option"

text \<open>\<open>body.get('data', '')\<close>.\<close>

definition get_data :: "string option \<Rightarrow> string" where
  "get_data d = (case d of None \<Rightarrow> [] | Some x \<Rightarrow> x)"

text \<open>
  The loop of \<open>_get_email_body\<close> over the parts; \<open>dec\<close> is
  \<open>base64.urlsafe_b64decode(data).decode('utf-8')\<close>, which may raise.
\<close>

fun body_of_parts :: "(string \<Rightarrow> exn + string) \<Rightarrow> msg_part list \<Rightarrow> exn + string" where
  "body_of_parts dec [] = Inr []"
| "body_of_parts dec (p # ps) =
     (if mimeType p = ''text/plain'' then
        (let d = get_data (part_data p) in if d \<noteq> [] then dec d else body_of_parts dec ps)
      else if mimeType p = ''text/html'' then
        (let d = get_data (part_data p) in if d \<noteq> [] then dec d else body_of_parts dec ps)
      else body_of_parts dec ps)"

definition get_email_body :: "(string \<Rightarrow> exn + string) \<Rightarrow> payload \<Rightarrow> exn + string" where
  "get_email_body dec pl =
     (case parts pl of
        Some ps \<Rightarrow> body_of_parts dec ps
      | None \<Rightarrow> (let d = get_data (body_data pl) in if d \<noteq> [] then dec d else Inr []))"

text \<open>
  The Gmail service: \<open>gmail_creds\<close> says whether credentials are configured,
  \<open>list_messages q\<close> is the list under \<open>'messages'\<close> of the answer to the query
  \<open>q\<close> (the ids), \<open>get_message i\<close> is the key \<open>'payload'\<close> of the full message,
  \<open>b64decode_utf8\<close> the decoder.
\<close>

record gmail =
  gmail_creds :: bool
  list_messages :: "string \<Rightarrow> exn + string list"
  get_message :: "string \<Rightarrow> exn + payload"
  b64decode_utf8 :: "string \<Rightarrow> exn + string"

record newsletter =
  subject :: string
  body :: string
  msg_id :: string

text \<open>The loop over the headers: the value of the first header named \<open>Subject\<close>.\<close>

fun find_subject :: "(string \<times> string) list \<Rightarrow> string" where
  "find_subject [] = []"
| "find_subject ((n, v) # hs) = (if n = ''Subject'' then v else find_subject hs)"

fun newsletters_loop :: "gmail \<Rightarrow> string list \<Rightarrow> newsletter list \<Rightarrow> exn + newsletter list" where
  "newsletters_loop G [] newsletters = Inr newsletters"
| "newsletters_loop G (i # is) newsletters =
     (case get_message G i of
        Inl e \<Rightarrow> Inl e
      | Inr full_msg \<Rightarrow>
     (case get_email_body (b64decode_utf8 G) full_msg of
        Inl e \<Rightarrow> Inl e
      | Inr b \<Rightarrow>
         newsletters_loop G is
           (newsletters @ [\<lparr>subject = find_subject (headers full_msg), body = b, msg_id = i\<rparr>])))"

definition fetch_gmail_newsletters ::
  "gmail \<Rightarrow> clock \<Rightarrow> string \<Rightarrow> int \<Rightarrow> event list \<times> (exn + newsletter list)" where
  "fetch_gmail_newsletters G clk label_name days_back =
     (if \<not> gmail_creds G then ([GmailNotConfigured], Inr [])
      else
     (case list_messages G (''label:'' @ label_name @ '' after:'' @ date_days_ago clk days_back) of
        Inl e \<Rightarrow> ([], Inl e)
      | Inr ids \<Rightarrow>
     (case newsletters_loop G ids [] of
        Inl e \<Rightarrow> ([], Inl e)
      | Inr newsletters \<Rightarrow> ([FoundNewsletters (length newsletters)], Inr newsletters))))"

section \<open>The run\<close>

text \<open>
  Steps 1 to 4 of \<open>main\<close>, from the configuration and the fetcher on: the references
  from Slack, the newsletters from Gmail, the loop over the references, the count of
  successes. The result is what the run printed and what it hands to the digest
  generator, or the exception that ended it.
\<close>

definition main_collect ::
  "env \<Rightarrow> slack \<Rightarrow> gmail \<Rightarrow> clock \<Rightarrow> filesystem \<Rightarrow> string \<Rightarrow> string \<Rightarrow> int \<Rightarrow>
     event list \<times> (exn + newsletter list \<times> outcome list)" where
  "main_collect E S G clk fs slack_channel gmail_label days_back =
     (case fetch_slack_urls S clk slack_channel days_back of
        (log1, Inl e) \<Rightarrow> (log1, Inl e)
      | (log1, Inr slack_urls) \<Rightarrow>
     (case fetch_gmail_newsletters G clk gmail_label days_back of
        (log2, Inl e) \<Rightarrow> (log1 @ log2, Inl e)
      | (log2, Inr newsletters) \<Rightarrow>
     (case main_papers E fs slack_urls of
        (Inl e, fs') \<Rightarrow> (log1 @ log2, Inl e)
      | (Inr papers, fs') \<Rightarrow>
         (log1 @ log2 @ [ProcessedPapers (length (filter success papers))],
          Inr (newsletters, papers)))))"

section \<open>Sample environments\<close>

text \<open>A server that answers every request with status 200 and the same body.\<close>

definition ok_response :: response where
  "ok_response =
     \<lparr>raise_for_status = None, resp_content = ''%PDF-1.4'', resp_text = ''<p>hi</p>''\<rparr>"

text \<open>
  Everything works, the prints included: the PDF has two pages, the second one without
  text.
\<close>

definition env_ok :: env where
  "env_ok =
     \<lparr>requests_get = (\<lambda>u hs. Inr ok_response), open_wb = (\<lambda>p. None),
      import_pdfplumber = None,
      pdfplumber_open = (\<lambda>bs. Inr [Inr (Some ''page one''), Inr None]),
      os_remove = (\<lambda>p. None), import_bs4 = None, soup_get_text = (\<lambda>h. Inr ''hi''),
      print_out = (\<lambda>s. None)\<rparr>"

text \<open>No request gets through.\<close>

definition env_unreachable :: env where
  "env_unreachable = env_ok\<lparr>requests_get := (\<lambda>u hs. Inl (Exception ''Connection refused''))\<rparr>"

text \<open>
  The bytes that arrive are a PDF header and nothing else; opening them raises a
  syntax error.
\<close>

definition env_bad_pdf :: env where
  "env_bad_pdf =
     env_ok\<lparr>pdfplumber_open := (\<lambda>bs. Inl (Exception ''No /Root object! - Is this really a PDF?''))\<rparr>"

text \<open>
  A password-protected PDF: its trailer carries an \<open>/Encrypt\<close> dictionary of the
  standard security handler, and the empty password does not open it.
\<close>

definition encrypted_pdf :: string where
  "encrypted_pdf =
     ''%PDF-1.4\<newline>'' @
     ''1 0 obj\<newline><< /Type /Catalog /Pages 2 0 R >>\<newline>endobj\<newline>'' @
     ''2 0 obj\<newline><< /Type /Pages /Kids [] /Count 0 >>\<newline>endobj\<newline>'' @
     ''trailer\<newline><< /Size 3 /Root 1 0 R /ID [ <00> <00> ] '' @
     ''/Encrypt << /Filter /Standard /V 1 /R 2 /P -4 '' @
     ''/O <'' @ replicate 64 (CHR ''0'') @ ''> /U <'' @ replicate 64 (CHR ''0'') @ ''> >> >>\<newline>'' @
     ''%%EOF\<newline>''"

text \<open>
  The server sends the password-protected PDF. Opening it raises an exception that was
  built without arguments (\<open>raise PDFPasswordIncorrect\<close>), so its \<open>str\<close> is empty.
\<close>

definition env_encrypted_pdf :: env where
  "env_encrypted_pdf =
     env_ok\<lparr>requests_get := (\<lambda>u hs. Inr (ok_response\<lparr>resp_content := encrypted_pdf\<rparr>)),
            pdfplumber_open := (\<lambda>bs. Inl (Exception []))\<rparr>"

text \<open>
  Standard output is an unbuffered pipe whose reader has gone: every \<open>print\<close> raises
  \<open>BrokenPipeError\<close>.
\<close>

definition env_broken_pipe :: env where
  "env_broken_pipe = env_ok\<lparr>print_out := (\<lambda>s. Some (Exception ''[Errno 32] Broken pipe''))\<rparr>"

text \<open>What the two expressions of the clock gave at one run, for a window of 7 days.\<close>

definition clock_sample :: clock where
  "clock_sample =
     \<lparr>oldest_days_ago = (\<lambda>n. ''1699395200.123456''), date_days_ago = (\<lambda>n. ''2023/11/07'')\<rparr>"

text \<open>
  Everything works, and every answer repeats what was asked for: the body of a response
  is the requested URL, a PDF has one page whose text is its bytes, and the text of a
  web page is its markup. The content of an outcome is then the URL that was fetched.
\<close>

definition env_echo :: env where
  "env_echo =
     \<lparr>requests_get = (\<lambda>u hs. Inr \<lparr>raise_for_status = None, resp_content = u, resp_text = u\<rparr>),
      open_wb = (\<lambda>p. None), import_pdfplumber = None,
      pdfplumber_open = (\<lambda>bs. Inr [Inr (Some bs)]),
      os_remove = (\<lambda>p. None), import_bs4 = None, soup_get_text = (\<lambda>h. Inr h),
      print_out = (\<lambda>s. None)\<rparr>"

text \<open>120 different references.\<close>

definition urls_120 :: "string list" where
  "urls_120 = map (\<lambda>n. ''https://blog.org/p/'' @ replicate n (CHR ''x'')) [0..<120]"

text \<open>
  The position at which \<open>x\<close> occurs first in \<open>xs\<close>; it is not part of the program
  and serves to say what the order of first occurrence is.
\<close>

definition first_index :: "string \<Rightarrow> string list \<Rightarrow> nat" where
  "first_index x xs = length (takeWhile (\<lambda>y. y \<noteq> x) xs)"

text \<open>
  A workspace with the channel of the papers. Its history in the window has two
  pages of one message each, the newer message first; the second page is what a
  request with the cursor of the first one gets.
\<close>

definition papers_channel :: channel where
  "papers_channel = \<lparr>ch_name = ''papers-running-list'', ch_id = ''C0123''\<rparr>"

definition slack_two_pages :: slack where
  "slack_two_pages =
     \<lparr>conversations_list = Inr [papers_channel],
      conversations_history = (\<lambda>c oldest cursor.
        if cursor = None then
          Inr \<lparr>messages = [\<lparr>msg_text = Some ''new: https://arxiv.org/abs/2401.00002''\<rparr>],
               has_more = True, next_cursor = Some ''page2''\<rparr>
        else
          Inr \<lparr>messages = [\<lparr>msg_text = Some ''older: https://arxiv.org/abs/2401.00001''\<rparr>],
               has_more = False, next_cursor = None\<rparr>)\<rparr>"

text \<open>A workspace whose history is one page of 120 messages with one reference each.\<close>

definition slack_120 :: slack where
  "slack_120 =
     \<lparr>conversations_list = Inr [papers_channel],
      conversations_history = (\<lambda>c oldest cursor.
        Inr \<lparr>messages = map (\<lambda>u. \<lparr>msg_text = Some u\<rparr>) urls_120,
             has_more = False, next_cursor = None\<rparr>)\<rparr>"

text \<open>No Gmail credentials.\<close>

definition gmail_off :: gmail where
  "gmail_off =
     \<lparr>gmail_creds = False, list_messages = (\<lambda>q. Inr []),
      get_message = (\<lambda>i. Inl (Exception ''Not Found'')),
      b64decode_utf8 = (\<lambda>d. Inl (Exception ''Incorrect padding''))\<rparr>"

text \<open>
  The visible text of the page has indented lines, blank lines, a line with a run of
  three spaces and a \<open>\r\n\<close> line end.
\<close>

definition env_page :: env where
  "env_page = env_ok\<lparr>soup_get_text :=
     (\<lambda>h. Inr [CHR '' '', CHR ''T'', CHR ''i'', CHR ''t'', CHR ''l'', CHR ''e'', CHR '' '',
               CHR 0x0A, CHR 0x0A, CHR '' '', CHR ''a'', CHR '' '', CHR ''b'', CHR '' '', CHR '' '',
               CHR '' '', CHR ''c'', CHR 0x0D, CHR 0x0A, CHR ''d'', CHR '' ''])\<rparr>"

text \<open>The visible text of the page is one line of 50001 characters.\<close>

definition env_long_page :: env where
  "env_long_page = env_ok\<lparr>soup_get_text := (\<lambda>h. Inr (replicate 49999 (CHR ''a'') @ '' b''))\<rparr>"

text \<open>
  The decoder on the two strings that the sample messages carry, \<open>hi\<close> and
  \<open><b>hi</b>\<close> in URL-safe base64; it raises on everything else.
\<close>

definition sample_b64decode :: "string \<Rightarrow> exn + string" where
  "sample_b64decode d =
     (if d = ''aGk='' then Inr ''hi''
      else if d = ''PGI-aGk8L2I-'' then Inr ''<b>hi</b>''
      else Inl (Exception ''Incorrect padding''))"

text \<open>
  Two multi-part messages with the same two text parts: HTML before plain text in the
  first, plain text before HTML in the second, behind a part of another type.
\<close>

definition payload_html_first :: payload where
  "payload_html_first =
     \<lparr>headers = [(''Subject'', ''Weekly'')],
      parts = Some [\<lparr>mimeType = ''text/html'', part_data = Some ''PGI-aGk8L2I-''\<rparr>,
                    \<lparr>mimeType = ''text/plain'', part_data = Some ''aGk=''\<rparr>],
      body_data = None\<rparr>"

definition payload_plain_first :: payload where
  "payload_plain_first =
     \<lparr>headers = [(''Subject'', ''Weekly'')],
      parts = Some [\<lparr>mimeType = ''multipart/related'', part_data = None\<rparr>,
                    \<lparr>mimeType = ''text/plain'', part_data = Some ''aGk=''\<rparr>,
                    \<lparr>mimeType = ''text/html'', part_data = Some ''PGI-aGk8L2I-''\<rparr>],
      body_data = None\<rparr>"

section \<open>Properties of the Document Resolver\<close>

lemmas resolver_defs =
  download_paper_content_def download_pdf_def download_pdf_try_def fetch_webpage_def
  fetch_webpage_try_def resolution_try_def arxiv_pdf_url_def pdf_path_def endswith_def
  suffix_to_prefix env_ok_def env_unreachable_def env_bad_pdf_def env_encrypted_pdf_def
  env_broken_pipe_def env_echo_def ok_response_def Let_def

lemmas whitespace_defs =
  clean_whitespace_def chunks_of_def strip_def is_space_def is_linebreak_def

lemma download_pdf_try_Inr:
  "download_pdf_try E fs p ou = (Inr r, fs') \<Longrightarrow>
     url r = ou \<and> type r = pdf \<and> success r \<and> length (content r) \<le> 100000 \<and> error r = None"
  unfolding download_pdf_try_def
  by (auto simp: Let_def split: sum.splits option.splits)

lemma fetch_webpage_try_Inr:
  "fetch_webpage_try E u = Inr r \<Longrightarrow>
     url r = u \<and> type r = webpage \<and> success r \<and> length (content r) \<le> 50000 \<and> error r = None"
  unfolding fetch_webpage_try_def
  by (auto split: sum.splits option.splits)

text \<open>
  What \<open>_download_pdf\<close> returns when it returns: the value of its \<open>try\<close> block, or the
  failure outcome that its handler builds from the exception of the block.
\<close>

lemma download_pdf_result:
  assumes "download_pdf E fs p ou = (Inr r, fs')"
  shows "url r = ou \<and> type r = pdf \<and>
     (if success r
      then length (content r) \<le> 100000 \<and> error r = None \<and>
           download_pdf_try E fs p ou = (Inr r, fs')
      else content r = [] \<and>
           (\<exists>e. download_pdf_try E fs p ou = (Inl e, fs') \<and> error r = Some (str_of e)))"
proof (cases "download_pdf_try E fs p ou")
  case (Pair x fs1)
  show ?thesis
  proof (cases x)
    case (Inl e)
    with Pair assms show ?thesis
      by (auto simp: download_pdf_def split: option.splits)
  next
    case (Inr r0)
    with Pair assms download_pdf_try_Inr [of E fs p ou r0 fs1] show ?thesis
      by (auto simp: download_pdf_def)
  qed
qed

lemma fetch_webpage_result:
  assumes "fetch_webpage E fs u = (Inr r, fs')"
  shows "fs' = fs \<and> url r = u \<and> type r = webpage \<and>
     (if success r
      then length (content r) \<le> 50000 \<and> error r = None \<and> fetch_webpage_try E u = Inr r
      else content r = [] \<and>
           (\<exists>e. fetch_webpage_try E u = Inl e \<and> error r = Some (str_of e)))"
proof (cases "fetch_webpage_try E u")
  case (Inl e)
  with assms show ?thesis
    by (auto simp: fetch_webpage_def split: option.splits)
next
  case (Inr r0)
  with assms fetch_webpage_try_Inr [of E u r0] show ?thesis
    by (auto simp: fetch_webpage_def)
qed

text \<open>
  Every outcome that \<open>download_paper_content\<close> returns is of one of two shapes: the
  success that the \<open>try\<close> block returned, within the cap of its kind, or a failure
  with empty content and the text of the exception that left the block.
\<close>

lemma download_paper_content_result:
  assumes "download_paper_content E fs u = (Inr r, fs')"
  shows "url r = u \<and>
     (if success r
      then error r = None \<and>
           length (content r) \<le> (case type r of pdf \<Rightarrow> 100000 | webpage \<Rightarrow> 50000) \<and>
           resolution_try E fs u = (Inr r, fs')
      else content r = [] \<and>
           (\<exists>e. resolution_try E fs u = (Inl e, fs') \<and> error r = Some (str_of e)))"
proof -
  from assms have pr: "print_out E (''Processing URL: '' @ u) = None"
    by (auto simp: download_paper_content_def split: option.splits)
  consider (a) "contains ''arxiv.org'' u"
    | (b) "\<not> contains ''arxiv.org'' u" "endswith u ''.pdf''"
    | (c) "\<not> contains ''arxiv.org'' u" "\<not> endswith u ''.pdf''" by blast
  then show ?thesis
  proof cases
    case a
    with assms pr have "download_pdf E fs (arxiv_pdf_url u) u = (Inr r, fs')"
      by (simp add: download_paper_content_def)
    from download_pdf_result [OF this] a show ?thesis
      by (auto simp: resolution_try_def split: if_splits)
  next
    case b
    with assms pr have "download_pdf E fs u u = (Inr r, fs')"
      by (simp add: download_paper_content_def)
    from download_pdf_result [OF this] b show ?thesis
      by (auto simp: resolution_try_def split: if_splits)
  next
    case c
    with assms pr have "fetch_webpage E fs u = (Inr r, fs')"
      by (simp add: download_paper_content_def)
    from fetch_webpage_result [OF this] c show ?thesis
      by (auto simp: resolution_try_def split: if_splits)
  qed
qed

text \<open>
  When no \<open>print\<close> raises, the handlers turn the result of the \<open>try\<close> block into the
  result of \<open>download_paper_content\<close>.
\<close>

lemma download_paper_content_captures:
  assumes "\<forall>s. print_out E s = None"
  shows "download_paper_content E fs u =
     (case resolution_try E fs u of
        (Inl e, fs1) \<Rightarrow>
          (Inr \<lparr>url = u,
                type = (if contains ''arxiv.org'' u \<or> endswith u ''.pdf'' then pdf else webpage),
                content = [], success = False, error = Some (str_of e)\<rparr>, fs1)
      | (Inr r, fs1) \<Rightarrow> (Inr r, fs1))"
  using assms
  by (auto simp: download_paper_content_def resolution_try_def download_pdf_def fetch_webpage_def
      split: prod.splits sum.splits)

lemma download_paper_content_total:
  assumes "\<forall>s. print_out E s = None"
  shows "\<exists>r fs'. download_paper_content E fs u = (Inr r, fs')"
  unfolding download_paper_content_captures [OF assms]
  by (auto split: prod.splits sum.splits)

lemma download_pdf_total:
  assumes "\<forall>s. print_out E s = None"
  shows "\<exists>r fs'. download_pdf E fs p ou = (Inr r, fs')"
  using assms by (auto simp: download_pdf_def split: prod.splits sum.splits)

text \<open>
  C9: every outcome that \<open>download_paper_content\<close> returns carries the reference it was
  given in its \<open>url\<close> field, and \<open>_download_pdf\<close> puts \<open>original_url\<close> there whatever
  URL it fetches: for an arXiv \<open>/abs/\<close> reference the field is the \<open>/abs/\<close> reference,
  not the \<open>/pdf/\<close> URL that was fetched. When no \<open>print\<close> raises, both functions
  return such an outcome.
\<close>

theorem outcome_url_is_reference:
  "(\<forall>r fs'. download_paper_content E fs u = (Inr r, fs') \<longrightarrow> url r = u) \<and>
   (\<forall>r fs'. download_pdf E fs (arxiv_pdf_url u) u = (Inr r, fs') \<longrightarrow> url r = u) \<and>
   ((\<forall>s. print_out E s = None) \<longrightarrow>
      (\<exists>r fs'. download_paper_content E fs u = (Inr r, fs') \<and> url r = u) \<and>
      (\<exists>r fs'. download_pdf E fs (arxiv_pdf_url u) u = (Inr r, fs') \<and> url r = u))"
proof (intro conjI allI impI)
  fix r fs'
  assume "download_paper_content E fs u = (Inr r, fs')"
  from download_paper_content_result [OF this] show "url r = u" by simp
next
  fix r fs'
  assume "download_pdf E fs (arxiv_pdf_url u) u = (Inr r, fs')"
  from download_pdf_result [OF this] show "url r = u" by simp
next
  assume p: "\<forall>s. print_out E s = None"
  from download_paper_content_total [OF p, of fs u]
  obtain r fs' where a: "download_paper_content E fs u = (Inr r, fs')" by blast
  from download_paper_content_result [OF a] a
  show "\<exists>r fs'. download_paper_content E fs u = (Inr r, fs') \<and> url r = u" by blast
next
  assume p: "\<forall>s. print_out E s = None"
  from download_pdf_total [OF p, of fs "arxiv_pdf_url u" u]
  obtain r fs' where a: "download_pdf E fs (arxiv_pdf_url u) u = (Inr r, fs')" by blast
  from download_pdf_result [OF a] a
  show "\<exists>r fs'. download_pdf E fs (arxiv_pdf_url u) u = (Inr r, fs') \<and> url r = u" by blast
qed

theorem outcome_url_is_reference_witness:
  "fst (download_paper_content env_echo Map.empty ''https://arxiv.org/abs/1234.5678'') =
     Inr \<lparr>url = ''https://arxiv.org/abs/1234.5678'', type = pdf,
          content = ''https://arxiv.org/pdf/1234.5678.pdf'', success = True, error = None\<rparr> \<and>
   arxiv_pdf_url ''https://arxiv.org/abs/1234.5678'' = ''https://arxiv.org/pdf/1234.5678.pdf'' \<and>
   fst (download_pdf env_echo Map.empty ''https://arxiv.org/pdf/1234.5678.pdf''
          ''https://arxiv.org/abs/1234.5678'') =
     Inr \<lparr>url = ''https://arxiv.org/abs/1234.5678'', type = pdf,
          content = ''https://arxiv.org/pdf/1234.5678.pdf'', success = True, error = None\<rparr>"
proof -
  have p: "\<forall>s. print_out env_echo s = None" by (simp add: env_echo_def)
  have a: "arxiv_pdf_url ''https://arxiv.org/abs/1234.5678'' = ''https://arxiv.org/pdf/1234.5678.pdf''"
    by (simp add: arxiv_pdf_url_def)
  have b: "download_pdf env_echo Map.empty ''https://arxiv.org/pdf/1234.5678.pdf''
          ''https://arxiv.org/abs/1234.5678'' =
     (Inr \<lparr>url = ''https://arxiv.org/abs/1234.5678'', type = pdf,
          content = ''https://arxiv.org/pdf/1234.5678.pdf'', success = True, error = None\<rparr>,
      Map.empty)"
    by (simp add: download_pdf_def download_pdf_try_def env_echo_def pdf_path_def)
  have c: "download_paper_content env_echo Map.empty ''https://arxiv.org/abs/1234.5678'' =
      download_pdf env_echo Map.empty ''https://arxiv.org/pdf/1234.5678.pdf''
          ''https://arxiv.org/abs/1234.5678''"
    using a by (simp add: download_paper_content_def env_echo_def)
  from outcome_url_is_reference [of env_echo Map.empty "''https://arxiv.org/abs/1234.5678''"]
    p a b c
  show ?thesis by simp
qed

text \<open>
  C5: every outcome of the resolver has empty content when \<open>success\<close> is false, and
  when \<open>success\<close> is true its content has at most 100000 characters if it is a \<open>pdf\<close>
  outcome and at most 50000 if it is a \<open>webpage\<close> outcome; the second cap is the
  smaller one. When no \<open>print\<close> raises, the resolver returns such an outcome.
\<close>

theorem outcome_invariant:
  "(\<forall>r fs'. download_paper_content E fs u = (Inr r, fs') \<longrightarrow>
      (\<not> success r \<longrightarrow> content r = []) \<and>
      (success r \<longrightarrow> (type r = pdf \<longrightarrow> length (content r) \<le> 100000) \<and>
                      (type r = webpage \<longrightarrow> length (content r) \<le> 50000))) \<and>
   ((\<forall>s. print_out E s = None) \<longrightarrow>
      (\<exists>r fs'. download_paper_content E fs u = (Inr r, fs') \<and>
         (\<not> success r \<longrightarrow> content r = []) \<and>
         (success r \<longrightarrow> (type r = pdf \<longrightarrow> length (content r) \<le> 100000) \<and>
                         (type r = webpage \<longrightarrow> length (content r) \<le> 50000)))) \<and>
   (50000::nat) < 100000"
proof -
  have inv: "(\<not> success r \<longrightarrow> content r = []) \<and>
      (success r \<longrightarrow> (type r = pdf \<longrightarrow> length (content r) \<le> 100000) \<and>
                      (type r = webpage \<longrightarrow> length (content r) \<le> 50000))"
    if "download_paper_content E fs u = (Inr r, fs')" for r fs'
    using download_paper_content_result [OF that] by (cases "type r") (auto split: if_splits)
  have "\<exists>r fs'. download_paper_content E fs u = (Inr r, fs') \<and>
         (\<not> success r \<longrightarrow> content r = []) \<and>
         (success r \<longrightarrow> (type r = pdf \<longrightarrow> length (content r) \<le> 100000) \<and>
                         (type r = webpage \<longrightarrow> length (content r) \<le> 50000))"
    if p: "\<forall>s. print_out E s = None"
  proof -
    from download_paper_content_total [OF p, of fs u]
    obtain r fs' where a: "download_paper_content E fs u = (Inr r, fs')" by blast
    from inv [OF a] a show ?thesis by blast
  qed
  with inv show ?thesis by simp
qed

theorem outcome_invariant_witness:
  "(\<exists>r fs'. download_paper_content env_ok Map.empty ''https://arxiv.org/abs/1234.5678'' = (Inr r, fs')
      \<and> success r \<and> type r = pdf \<and> length (content r) \<le> 100000) \<and>
   (\<exists>r fs'. download_paper_content env_ok Map.empty ''https://blog.org/post'' = (Inr r, fs')
      \<and> success r \<and> type r = webpage \<and> length (content r) \<le> 50000) \<and>
   (\<exists>r fs'. download_paper_content env_unreachable Map.empty ''https://blog.org/post'' = (Inr r, fs')
      \<and> \<not> success r \<and> content r = [])"
  using outcome_invariant [of env_ok Map.empty "''https://arxiv.org/abs/1234.5678''"]
    outcome_invariant [of env_ok Map.empty "''https://blog.org/post''"]
    outcome_invariant [of env_unreachable Map.empty "''https://blog.org/post''"]
  by (simp add: resolver_defs whitespace_defs)

section \<open>Failure isolation\<close>

text \<open>The result of a resolution does not depend on the files that are there when it starts.\<close>

lemma download_pdf_try_fs_independent:
  "fst (download_pdf_try E fs p ou) = fst (download_pdf_try E fs0 p ou)"
  unfolding download_pdf_try_def
  by (auto simp: Let_def split: sum.splits option.splits)

lemma download_pdf_fs_independent:
  "fst (download_pdf E fs p ou) = fst (download_pdf E fs0 p ou)"
proof -
  obtain x f where a: "download_pdf_try E fs p ou = (x, f)" by (cases "download_pdf_try E fs p ou")
  obtain y g where b: "download_pdf_try E fs0 p ou = (y, g)" by (cases "download_pdf_try E fs0 p ou")
  from a b download_pdf_try_fs_independent [of E fs p ou fs0] have "x = y" by simp
  with a b show ?thesis
    by (cases y) (simp_all add: download_pdf_def split: option.splits)
qed

lemma download_paper_content_fs_independent:
  "fst (download_paper_content E fs u) = fst (download_paper_content E fs0 u)"
proof -
  have "fst (fetch_webpage E fs u) = fst (fetch_webpage E fs0 u)"
    by (simp add: fetch_webpage_def split: sum.splits option.splits)
  then show ?thesis
    using download_pdf_fs_independent [of E fs _ u fs0]
    by (simp add: download_paper_content_def split: option.splits)
qed

text \<open>
  The loop over the references: whenever it ends without an exception it has produced,
  in order, the outcome of every reference; and it ends so when no \<open>print\<close> raises.
\<close>

lemma resolve_loop_result:
  "resolve_loop E fs us acc = (Inr out, fs') \<Longrightarrow>
     \<exists>rs. out = acc @ rs \<and> length rs = length us \<and> map url rs = us \<and>
       (\<forall>i<length us. \<forall>fs0. fst (download_paper_content E fs0 (us ! i)) = Inr (rs ! i))"
proof (induction us arbitrary: fs acc)
  case Nil
  then show ?case by simp
next
  case (Cons u us)
  from Cons.prems obtain r fs1 where r: "download_paper_content E fs u = (Inr r, fs1)"
    and loop: "resolve_loop E fs1 us (acc @ [r]) = (Inr out, fs')"
    by (auto split: prod.splits sum.splits)
  from download_paper_content_result [OF r] have ur: "url r = u" by simp
  from Cons.IH [OF loop] obtain rs where rs: "out = (acc @ [r]) @ rs"
    "length rs = length us" "map url rs = us"
    "\<forall>i<length us. \<forall>fs0. fst (download_paper_content E fs0 (us ! i)) = Inr (rs ! i)"
    by blast
  have any: "fst (download_paper_content E fs0 u) = Inr r" for fs0
    using r download_paper_content_fs_independent [of E fs0 u fs] by simp
  have "\<forall>i<length (u # us). \<forall>fs0.
          fst (download_paper_content E fs0 ((u # us) ! i)) = Inr ((r # rs) ! i)"
  proof (intro allI impI)
    fix i fs0 assume "i < length (u # us)"
    then show "fst (download_paper_content E fs0 ((u # us) ! i)) = Inr ((r # rs) ! i)"
      using any rs(4) by (cases i) auto
  qed
  with ur rs show ?case
    by (intro exI [of _ "r # rs"]) simp
qed

lemma resolve_loop_total:
  assumes "\<forall>s. print_out E s = None"
  shows "\<exists>out fs'. resolve_loop E fs us acc = (Inr out, fs')"
proof (induction us arbitrary: fs acc)
  case Nil
  show ?case by simp
next
  case (Cons u us)
  from download_paper_content_total [OF assms, of fs u]
  obtain r fs1 where "download_paper_content E fs u = (Inr r, fs1)" by blast
  with Cons.IH [of fs1 "acc @ [r]"] show ?case by simp
qed

lemma main_papers_result:
  assumes "main_papers E fs slack_urls = (Inr rs, fs')"
  shows "length rs = min 50 (length slack_urls) \<and> map url rs = take 50 slack_urls \<and>
     (\<forall>i<length rs. \<forall>fs0. fst (download_paper_content E fs0 (slack_urls ! i)) = Inr (rs ! i))"
proof -
  from assms have "resolve_loop E fs (take 50 slack_urls) [] = (Inr rs, fs')"
    by (simp add: main_papers_def)
  from resolve_loop_result [OF this] show ?thesis by auto
qed

lemma main_papers_total:
  assumes "\<forall>s. print_out E s = None"
  shows "\<exists>rs fs'. main_papers E fs slack_urls = (Inr rs, fs')"
  unfolding main_papers_def by (rule resolve_loop_total [OF assms])

text \<open>
  C1, as the code has it, for a run in which no \<open>print\<close> raises. \<open>download_paper_content\<close>
  returns one outcome for every reference and raises nothing. When the resolution
  fails, that is when an exception \<open>e\<close> leaves the \<open>try\<close> block, the outcome has
  \<open>success\<close> false, empty content and the error description \<open>str(e)\<close>, which is empty
  when \<open>e\<close> has no message; when the block returns, the outcome is what it returned
  and \<open>success\<close> is true. The loop of \<open>main\<close> raises nothing either and produces, in
  input order, one outcome for each reference it runs over, the first 50; each is the
  outcome that the resolution of this reference alone gives, from any state of the
  file system, whatever happened to the references before it.
\<close>

theorem failure_is_captured:
  assumes "\<forall>s. print_out E s = None"
  shows "(\<exists>r fs'. download_paper_content E fs u = (Inr r, fs')) \<and>
   (\<forall>e fs1. resolution_try E fs u = (Inl e, fs1) \<longrightarrow>
      download_paper_content E fs u =
        (Inr \<lparr>url = u,
              type = (if contains ''arxiv.org'' u \<or> endswith u ''.pdf'' then pdf else webpage),
              content = [], success = False, error = Some (str_of e)\<rparr>, fs1)) \<and>
   (\<forall>r fs1. resolution_try E fs u = (Inr r, fs1) \<longrightarrow>
      download_paper_content E fs u = (Inr r, fs1) \<and> success r \<and> error r = None) \<and>
   (\<forall>r fs'. download_paper_content E fs u = (Inr r, fs') \<and> \<not> success r \<longrightarrow>
      content r = [] \<and>
      (\<exists>e. resolution_try E fs u = (Inl e, fs') \<and> error r = Some (str_of e))) \<and>
   (\<exists>rs fs'. main_papers E fs slack_urls = (Inr rs, fs') \<and>
      length rs = min 50 (length slack_urls) \<and> map url rs = take 50 slack_urls \<and>
      (\<forall>i<length rs. \<forall>fs0.
         fst (download_paper_content E fs0 (slack_urls ! i)) = Inr (rs ! i)))"
proof -
  have h1: "\<exists>r fs'. download_paper_content E fs u = (Inr r, fs')"
    by (rule download_paper_content_total [OF assms])
  have h2: "\<forall>e fs1. resolution_try E fs u = (Inl e, fs1) \<longrightarrow>
      download_paper_content E fs u =
        (Inr \<lparr>url = u,
              type = (if contains ''arxiv.org'' u \<or> endswith u ''.pdf'' then pdf else webpage),
              content = [], success = False, error = Some (str_of e)\<rparr>, fs1)"
    by (simp add: download_paper_content_captures [OF assms])
  have h3: "\<forall>r fs1. resolution_try E fs u = (Inr r, fs1) \<longrightarrow>
      download_paper_content E fs u = (Inr r, fs1) \<and> success r \<and> error r = None"
  proof (intro allI impI)
    fix r fs1
    assume a: "resolution_try E fs u = (Inr r, fs1)"
    then have b: "download_paper_content E fs u = (Inr r, fs1)"
      by (simp add: download_paper_content_captures [OF assms])
    from a have "success r \<and> error r = None"
      using download_pdf_try_Inr [of E fs _ u r fs1] fetch_webpage_try_Inr [of E u r]
      by (auto simp: resolution_try_def split: if_splits)
    with b show "download_paper_content E fs u = (Inr r, fs1) \<and> success r \<and> error r = None"
      by simp
  qed
  have h4: "\<forall>r fs'. download_paper_content E fs u = (Inr r, fs') \<and> \<not> success r \<longrightarrow>
      content r = [] \<and>
      (\<exists>e. resolution_try E fs u = (Inl e, fs') \<and> error r = Some (str_of e))"
  proof (intro allI impI)
    fix r fs'
    assume "download_paper_content E fs u = (Inr r, fs') \<and> \<not> success r"
    then show "content r = [] \<and>
        (\<exists>e. resolution_try E fs u = (Inl e, fs') \<and> error r = Some (str_of e))"
      using download_paper_content_result [of E fs u r fs'] by simp
  qed
  have h5: "\<exists>rs fs'. main_papers E fs slack_urls = (Inr rs, fs') \<and>
      length rs = min 50 (length slack_urls) \<and> map url rs = take 50 slack_urls \<and>
      (\<forall>i<length rs. \<forall>fs0.
         fst (download_paper_content E fs0 (slack_urls ! i)) = Inr (rs ! i))"
  proof -
    from main_papers_total [OF assms, of fs slack_urls]
    obtain rs fs' where a: "main_papers E fs slack_urls = (Inr rs, fs')" by blast
    from main_papers_result [OF a] a show ?thesis by blast
  qed
  show ?thesis by (intro conjI h1 h2 h3 h4 h5)
qed

theorem failure_is_captured_witness:
  "fst (resolution_try env_bad_pdf Map.empty ''https://site.org/paper.pdf'') =
     Inl (Exception ''No /Root object! - Is this really a PDF?'') \<and>
   fst (download_paper_content env_bad_pdf Map.empty ''https://site.org/paper.pdf'') =
     Inr \<lparr>url = ''https://site.org/paper.pdf'', type = pdf, content = [], success = False,
          error = Some ''No /Root object! - Is this really a PDF?''\<rparr> \<and>
   fst (resolution_try env_bad_pdf Map.empty ''https://blog.org/post'') =
     Inr \<lparr>url = ''https://blog.org/post'', type = webpage, content = ''hi'', success = True,
          error = None\<rparr> \<and>
   (\<exists>rs fs'. main_papers env_bad_pdf Map.empty
        [''https://site.org/paper.pdf'', ''https://blog.org/post''] = (Inr rs, fs') \<and>
      length rs = 2 \<and> \<not> success (rs ! 0) \<and> success (rs ! 1) \<and>
      fst (download_paper_content env_bad_pdf Map.empty ''https://blog.org/post'') = Inr (rs ! 1))"
proof -
  have p: "\<forall>s. print_out env_bad_pdf s = None"
    by (simp add: env_bad_pdf_def env_ok_def)
  from failure_is_captured [OF p, of Map.empty "''https://site.org/paper.pdf''"
      "[''https://site.org/paper.pdf'', ''https://blog.org/post'']"]
    failure_is_captured [OF p, of Map.empty "''https://blog.org/post''" "[]"]
  show ?thesis
    by (simp add: resolver_defs whitespace_defs main_papers_def)
qed

text \<open>
  C1 as stated fails twice. The server sends a password-protected PDF: opening it
  raises an exception without a message, and the failure outcome carries the empty
  string as its error description. And with standard output broken the \<open>print\<close> at
  the head of \<open>download_paper_content\<close>, which no \<open>try\<close> encloses, raises and the
  exception leaves the resolver.
\<close>

theorem empty_error_text_and_raising_print:
  "fst (download_paper_content env_encrypted_pdf Map.empty ''https://site.org/paper.pdf'') =
     Inr \<lparr>url = ''https://site.org/paper.pdf'', type = pdf, content = [], success = False,
          error = Some []\<rparr> \<and>
   fst (download_paper_content env_broken_pipe Map.empty ''https://site.org/paper.pdf'') =
     Inl (Exception ''[Errno 32] Broken pipe'')"
  by (simp add: resolver_defs)

section \<open>The temporary PDF file\<close>

text \<open>
  C4 at a failing input: the bytes of \<open>https://site.org/paper.pdf\<close> arrive and are
  written, and opening them as a PDF raises. \<open>_download_pdf\<close> returns the failure
  outcome while \<open>/tmp/temp_paper.pdf\<close> still holds the bytes; \<open>os.remove\<close> stands
  in the \<open>try\<close> block behind the extraction and runs only when that went through,
  as the third fact shows for a PDF that opens.
\<close>

theorem temp_file_left_behind:
  "fst (download_pdf env_bad_pdf Map.empty ''https://site.org/paper.pdf'' ''https://site.org/paper.pdf'') =
     Inr \<lparr>url = ''https://site.org/paper.pdf'', type = pdf, content = [], success = False,
          error = Some ''No /Root object! - Is this really a PDF?''\<rparr> \<and>
   snd (download_pdf env_bad_pdf Map.empty ''https://site.org/paper.pdf'' ''https://site.org/paper.pdf'')
     ''/tmp/temp_paper.pdf'' = Some ''%PDF-1.4'' \<and>
   snd (download_pdf env_ok Map.empty ''https://site.org/paper.pdf'' ''https://site.org/paper.pdf'')
     ''/tmp/temp_paper.pdf'' = None"
  by (simp add: resolver_defs)

section \<open>Rewriting of arXiv references\<close>

text \<open>\<open>replace\<close> on a string without the pattern, and on a string with one occurrence.\<close>

lemma replace_absent: "\<not> contains old s \<Longrightarrow> replace old new s = s"
  by (induction s) auto

lemma prefix_append_long:
  "length p \<le> length xs \<Longrightarrow> prefix p (xs @ ys) = prefix p xs"
  by (auto simp: prefix_append)

lemma replace_Cons_no_prefix:
  "\<not> prefix old (c # cs) \<Longrightarrow> replace old new (c # cs) = c # replace old new cs"
  by simp

lemma replace_abs_once:
  assumes "\<not> contains ''/abs/'' (base @ ''/abs'')" and "\<not> contains ''/abs/'' ident"
  shows "replace ''/abs/'' ''/pdf/'' (base @ ''/abs/'' @ ident) = base @ ''/pdf/'' @ ident"
  using assms(1)
proof (induction base)
  case Nil
  show ?case using assms(2) by (simp add: replace_absent)
next
  case (Cons c base)
  from Cons.prems have np: "\<not> prefix ''/abs/'' (c # base @ ''/abs'')"
    and nc: "\<not> contains ''/abs/'' (base @ ''/abs'')" by auto
  have "prefix ''/abs/'' ((c # base @ ''/abs'') @ (''/'' @ ident)) =
      prefix ''/abs/'' (c # base @ ''/abs'')"
    by (rule prefix_append_long) simp
  with np have "\<not> prefix ''/abs/'' (c # base @ ''/abs/'' @ ident)" by simp
  then have "replace ''/abs/'' ''/pdf/'' (c # base @ ''/abs/'' @ ident) =
      c # replace ''/abs/'' ''/pdf/'' (base @ ''/abs/'' @ ident)"
    by (rule replace_Cons_no_prefix)
  with Cons.IH [OF nc] show ?case by (simp only: append_Cons)
qed

text \<open>
  C8: a reference to the abstract view of the repository that the code knows,
  arXiv, is one that contains \<open>arxiv.org\<close> and \<open>/abs/\<close>. \<open>download_paper_content\<close>
  rewrites it before it fetches anything: the resolution is that of \<open>_download_pdf\<close>
  on the rewritten URL, whose first step is the request for that URL, and every
  outcome is of type \<open>pdf\<close>, none of type \<open>webpage\<close>. The rewritten URL is the
  document view: for \<open>base/abs/ident\<close> it is \<open>base/pdf/ident.pdf\<close>.
\<close>

theorem arxiv_abs_rewritten:
  assumes "contains ''arxiv.org'' u" and "contains ''/abs/'' u"
  shows "download_paper_content E fs u =
      (case print_out E (''Processing URL: '' @ u) of
         Some e \<Rightarrow> (Inl e, fs)
       | None \<Rightarrow> download_pdf E fs (replace ''/abs/'' ''/pdf/'' u @ ''.pdf'') u) \<and>
    resolution_try E fs u = download_pdf_try E fs (replace ''/abs/'' ''/pdf/'' u @ ''.pdf'') u \<and>
    (\<forall>e. requests_get E (replace ''/abs/'' ''/pdf/'' u @ ''.pdf'') [] = Inl e \<longrightarrow>
       resolution_try E fs u = (Inl e, fs)) \<and>
    (\<forall>r fs'. download_paper_content E fs u = (Inr r, fs') \<longrightarrow> type r = pdf) \<and>
    ((\<forall>s. print_out E s = None) \<longrightarrow>
       (\<exists>r fs'. download_paper_content E fs u = (Inr r, fs') \<and> type r = pdf)) \<and>
    (\<forall>base ident. u = base @ ''/abs/'' @ ident \<and> \<not> contains ''/abs/'' (base @ ''/abs'') \<and>
         \<not> contains ''/abs/'' ident \<longrightarrow>
       replace ''/abs/'' ''/pdf/'' u @ ''.pdf'' = base @ ''/pdf/'' @ ident @ ''.pdf'')"
proof (intro conjI allI impI)
  show eq: "download_paper_content E fs u =
      (case print_out E (''Processing URL: '' @ u) of
         Some e \<Rightarrow> (Inl e, fs)
       | None \<Rightarrow> download_pdf E fs (replace ''/abs/'' ''/pdf/'' u @ ''.pdf'') u)"
    using assms by (simp add: download_paper_content_def arxiv_pdf_url_def split: option.splits)
  show rt: "resolution_try E fs u =
      download_pdf_try E fs (replace ''/abs/'' ''/pdf/'' u @ ''.pdf'') u"
    using assms by (simp add: resolution_try_def arxiv_pdf_url_def)
  show "resolution_try E fs u = (Inl e, fs)"
    if "requests_get E (replace ''/abs/'' ''/pdf/'' u @ ''.pdf'') [] = Inl e" for e
    using that by (simp add: rt download_pdf_try_def)
  show ty: "type r = pdf" if a: "download_paper_content E fs u = (Inr r, fs')" for r fs'
  proof -
    from a eq have "download_pdf E fs (replace ''/abs/'' ''/pdf/'' u @ ''.pdf'') u = (Inr r, fs')"
      by (auto split: option.splits)
    from download_pdf_result [OF this] show ?thesis by simp
  qed
  show "\<exists>r fs'. download_paper_content E fs u = (Inr r, fs') \<and> type r = pdf"
    if p: "\<forall>s. print_out E s = None"
  proof -
    from download_paper_content_total [OF p, of fs u]
    obtain r fs' where a: "download_paper_content E fs u = (Inr r, fs')" by blast
    from ty [OF a] a show ?thesis by blast
  qed
  show "replace ''/abs/'' ''/pdf/'' u @ ''.pdf'' = base @ ''/pdf/'' @ ident @ ''.pdf''"
    if "u = base @ ''/abs/'' @ ident \<and> \<not> contains ''/abs/'' (base @ ''/abs'') \<and>
         \<not> contains ''/abs/'' ident" for base ident
    using that replace_abs_once [of base ident] by simp
qed

theorem arxiv_abs_rewritten_witness:
  "contains ''arxiv.org'' ''https://arxiv.org/abs/1234.5678'' \<and>
   contains ''/abs/'' ''https://arxiv.org/abs/1234.5678'' \<and>
   ''https://arxiv.org/abs/1234.5678'' = ''https://arxiv.org'' @ ''/abs/'' @ ''1234.5678'' \<and>
   replace ''/abs/'' ''/pdf/'' ''https://arxiv.org/abs/1234.5678'' @ ''.pdf'' =
     ''https://arxiv.org/pdf/1234.5678.pdf'' \<and>
   fst (download_paper_content env_echo Map.empty ''https://arxiv.org/abs/1234.5678'') =
     Inr \<lparr>url = ''https://arxiv.org/abs/1234.5678'', type = pdf,
          content = ''https://arxiv.org/pdf/1234.5678.pdf'', success = True, error = None\<rparr> \<and>
   fst (download_paper_content
          (env_echo\<lparr>requests_get := (\<lambda>u hs.
             if u = ''https://arxiv.org/pdf/1234.5678.pdf'' \<and> hs = []
             then Inl (Exception ''Connection refused'')
             else Inr \<lparr>raise_for_status = None, resp_content = u, resp_text = u\<rparr>)\<rparr>)
          Map.empty ''https://arxiv.org/abs/1234.5678'') =
     Inr \<lparr>url = ''https://arxiv.org/abs/1234.5678'', type = pdf, content = [],
          success = False, error = Some ''Connection refused''\<rparr>"
proof -
  let ?E = "env_echo\<lparr>requests_get := (\<lambda>u hs.
             if u = ''https://arxiv.org/pdf/1234.5678.pdf'' \<and> hs = []
             then Inl (Exception ''Connection refused'')
             else Inr \<lparr>raise_for_status = None, resp_content = u, resp_text = u\<rparr>)\<rparr>"
  have a: "contains ''arxiv.org'' ''https://arxiv.org/abs/1234.5678''" by simp
  have b: "contains ''/abs/'' ''https://arxiv.org/abs/1234.5678''" by simp
  have c: "replace ''/abs/'' ''/pdf/'' ''https://arxiv.org/abs/1234.5678'' @ ''.pdf'' =
      ''https://arxiv.org/pdf/1234.5678.pdf''" by simp
  have d: "\<not> contains ''/abs/'' (''https://arxiv.org'' @ ''/abs'')" by simp
  have e: "\<not> contains ''/abs/'' ''1234.5678''" by simp
  have p: "\<forall>s. print_out env_echo s = None" "\<forall>s. print_out ?E s = None"
    by (simp_all add: env_echo_def)
  from arxiv_abs_rewritten [OF a b, of env_echo Map.empty]
    arxiv_abs_rewritten [OF a b, of ?E Map.empty] a b c d e p
  show ?thesis
    by (simp add: download_pdf_def download_pdf_try_def env_echo_def pdf_path_def)
qed

section \<open>Deduplication of the references\<close>

text \<open>A URL that the pattern matches holds no whitespace, so stripping leaves it as it is.\<close>

lemma url_char_not_space: "url_char c \<Longrightarrow> \<not> is_space c"
  by (auto simp: url_char_def is_space_def Let_def)

lemma no_space_strip: "\<forall>c\<in>set u. \<not> is_space c \<Longrightarrow> strip u = u"
proof -
  assume a: "\<forall>c\<in>set u. \<not> is_space c"
  have 1: "dropWhile is_space u = u"
    using a by (cases u) auto
  have 2: "dropWhile is_space (rev u) = rev u"
    using a by (cases "rev u") (auto simp: dropWhile_eq_self_iff)
  show ?thesis by (simp add: strip_def 1 2)
qed

lemma findall_urls_no_space:
  "u \<in> set (findall_urls t) \<Longrightarrow> \<forall>c\<in>set u. \<not> is_space c"
proof (induction t rule: findall_urls.induct)
  case 1
  then show ?case by simp
next
  case (2 c cs)
  have tw: "\<forall>x\<in>set (takeWhile url_char xs). \<not> is_space x" for xs
    using set_takeWhileD [of _ url_char xs] url_char_not_space by blast
  have s1: "\<forall>x\<in>set ''https://''. \<not> is_space x" by (simp add: is_space_def)
  have s2: "\<forall>x\<in>set ''http://''. \<not> is_space x" by (simp add: is_space_def)
  show ?case
  proof (cases "prefix ''https://'' (c # cs) \<and> takeWhile url_char (drop 7 cs) \<noteq> []")
    case True
    with 2 tw s1 show ?thesis by auto
  next
    case False
    note F = this
    show ?thesis
    proof (cases "prefix ''http://'' (c # cs) \<and> takeWhile url_char (drop 6 cs) \<noteq> []")
      case True
      with 2 F tw s2 show ?thesis by auto
    next
      case False
      with 2 F show ?thesis by auto
    qed
  qed
qed

lemma extract_urls_strip: "u \<in> set (extract_urls ms) \<Longrightarrow> strip u = u"
  using findall_urls_no_space no_space_strip by (auto simp: extract_urls_def)

text \<open>
  The invariant of the loop: \<open>unique_urls\<close> is duplicate-free, holds the URLs read so
  far, and is ordered by their first occurrence.
\<close>

lemma first_index_append_new:
  "u \<notin> set pre \<Longrightarrow> first_index u (pre @ u # us) = length pre"
  by (induction pre) (auto simp: first_index_def)

lemma first_index_mem: "a \<in> set pre \<Longrightarrow> first_index a (pre @ us) < length pre"
proof -
  assume a: "a \<in> set pre"
  then have "takeWhile (\<lambda>y. y \<noteq> a) (pre @ us) = takeWhile (\<lambda>y. y \<noteq> a) pre"
    by (simp add: takeWhile_append1)
  moreover have "length (takeWhile (\<lambda>y. y \<noteq> a) pre) < length pre"
    using a by (induction pre) auto
  ultimately show ?thesis by (simp add: first_index_def)
qed

lemma unique_loop_inv:
  "distinct acc \<Longrightarrow> set acc = set pre \<Longrightarrow> seen = set pre \<Longrightarrow>
   sorted_wrt (\<lambda>a b. first_index a (pre @ us) < first_index b (pre @ us)) acc \<Longrightarrow>
   distinct (unique_loop us seen acc) \<and> set (unique_loop us seen acc) = set (pre @ us) \<and>
   sorted_wrt (\<lambda>a b. first_index a (pre @ us) < first_index b (pre @ us))
     (unique_loop us seen acc)"
proof (induction us arbitrary: acc pre seen)
  case Nil
  then show ?case by simp
next
  case (Cons u us)
  show ?case
  proof (cases "u \<in> seen")
    case True
    have "distinct (unique_loop us seen acc) \<and>
        set (unique_loop us seen acc) = set ((pre @ [u]) @ us) \<and>
        sorted_wrt (\<lambda>a b. first_index a ((pre @ [u]) @ us) < first_index b ((pre @ [u]) @ us))
          (unique_loop us seen acc)"
      using Cons.prems True by (intro Cons.IH) auto
    with True show ?thesis by simp
  next
    case False
    have new: "first_index u (pre @ u # us) = length pre"
      using False Cons.prems(3) by (simp add: first_index_append_new)
    have old: "\<forall>a\<in>set acc. first_index a (pre @ u # us) < length pre"
      using Cons.prems(2) first_index_mem [of _ pre "u # us"] by blast
    have "distinct (unique_loop us (insert u seen) (acc @ [u])) \<and>
        set (unique_loop us (insert u seen) (acc @ [u])) = set ((pre @ [u]) @ us) \<and>
        sorted_wrt (\<lambda>a b. first_index a ((pre @ [u]) @ us) < first_index b ((pre @ [u]) @ us))
          (unique_loop us (insert u seen) (acc @ [u]))"
      using Cons.prems False new old by (intro Cons.IH) (auto simp: sorted_wrt_append)
    with False show ?thesis by simp
  qed
qed

lemma unique_loop_result:
  "distinct (unique_loop us {} []) \<and> set (unique_loop us {} []) = set us \<and>
   sorted_wrt (\<lambda>a b. first_index a us < first_index b us) (unique_loop us {} [])"
  using unique_loop_inv [of "[]" "[]" "{}" us] by simp

text \<open>
  C6: for the URLs extracted from any messages, duplicates included, the list that the
  loop of \<open>fetch_slack_urls\<close> returns has as many entries as there are distinct
  stripped values among the extracted URLs, has no two entries that are equal after
  stripping, holds exactly the extracted URLs, and lists them in the order of their
  first occurrence. (An extracted URL holds no whitespace, so two extracted URLs are
  equal after stripping exactly when they are equal.)
\<close>

theorem unique_urls_are_distinct_normalized:
  "length (unique_loop (extract_urls ms) {} []) = card (strip ` set (extract_urls ms)) \<and>
   distinct (map strip (unique_loop (extract_urls ms) {} [])) \<and>
   set (unique_loop (extract_urls ms) {} []) = set (extract_urls ms) \<and>
   sorted_wrt (\<lambda>a b. first_index a (extract_urls ms) < first_index b (extract_urls ms))
     (unique_loop (extract_urls ms) {} [])"
proof -
  let ?urls = "extract_urls ms"
  let ?out = "unique_loop ?urls {} []"
  have r: "distinct ?out" "set ?out = set ?urls"
    "sorted_wrt (\<lambda>a b. first_index a ?urls < first_index b ?urls) ?out"
    using unique_loop_result [of ?urls] by auto
  have id: "map strip ?out = ?out"
    using r(2) extract_urls_strip [of _ ms] by (intro map_idI) auto
  have "strip ` set ?urls = set ?urls"
    using extract_urls_strip [of _ ms] by force
  then have "card (strip ` set ?urls) = length ?out"
    using r(1,2) distinct_card [of ?out] by simp
  with r id show ?thesis by simp
qed

theorem unique_urls_are_distinct_normalized_witness:
  "extract_urls [\<lparr>msg_text = Some ''see https://a.org/x and https://b.org/y''\<rparr>,
                 \<lparr>msg_text = Some '' https://b.org/y  https://a.org/x https://c.org/z''\<rparr>] =
     [''https://a.org/x'', ''https://b.org/y'', ''https://b.org/y'', ''https://a.org/x'',
      ''https://c.org/z''] \<and>
   unique_loop [''https://a.org/x'', ''https://b.org/y'', ''https://b.org/y'', ''https://a.org/x'',
      ''https://c.org/z''] {} [] = [''https://a.org/x'', ''https://b.org/y'', ''https://c.org/z''] \<and>
   card (strip ` {''https://a.org/x'', ''https://b.org/y'', ''https://c.org/z''}) = 3"
proof -
  let ?ms = "[\<lparr>msg_text = Some ''see https://a.org/x and https://b.org/y''\<rparr>,
                 \<lparr>msg_text = Some '' https://b.org/y  https://a.org/x https://c.org/z''\<rparr>]"
  have e: "extract_urls ?ms =
     [''https://a.org/x'', ''https://b.org/y'', ''https://b.org/y'', ''https://a.org/x'',
      ''https://c.org/z'']"
    by (simp add: extract_urls_def get_text_def url_char_def)
  have u: "unique_loop [''https://a.org/x'', ''https://b.org/y'', ''https://b.org/y'', ''https://a.org/x'',
      ''https://c.org/z''] {} [] = [''https://a.org/x'', ''https://b.org/y'', ''https://c.org/z'']"
    by simp
  from unique_urls_are_distinct_normalized [of ?ms] show ?thesis
    unfolding e u by auto
qed

section \<open>Paging of the message history\<close>

text \<open>
  C3 at a failing input: the history of the channel in the window has two pages.
  \<open>fetch_slack_urls\<close> asks once, without a cursor, gets the first page with
  \<open>has_more\<close> true, and returns the one URL of that page; the URL of the message on the
  second page, which is in the window too, is not in its output.
\<close>

theorem second_page_never_requested:
  "fetch_slack_urls slack_two_pages clock_sample ''papers-running-list'' 7 =
     ([FoundUniqueUrls 1], Inr [''https://arxiv.org/abs/2401.00002'']) \<and>
   conversations_history slack_two_pages ''C0123'' (oldest_days_ago clock_sample 7) None =
     Inr \<lparr>messages = [\<lparr>msg_text = Some ''new: https://arxiv.org/abs/2401.00002''\<rparr>],
          has_more = True, next_cursor = Some ''page2''\<rparr> \<and>
   conversations_history slack_two_pages ''C0123'' (oldest_days_ago clock_sample 7)
       (Some ''page2'') =
     Inr \<lparr>messages = [\<lparr>msg_text = Some ''older: https://arxiv.org/abs/2401.00001''\<rparr>],
          has_more = False, next_cursor = None\<rparr> \<and>
   findall_urls ''older: https://arxiv.org/abs/2401.00001'' =
     [''https://arxiv.org/abs/2401.00001'']"
  by (simp add: fetch_slack_urls_def slack_two_pages_def papers_channel_def extract_urls_def
      get_text_def url_char_def)

section \<open>The cap on resolved references\<close>

lemma findall_urls_blog:
  "findall_urls (''https://blog.org/p/'' @ replicate n (CHR ''x'')) =
     [''https://blog.org/p/'' @ replicate n (CHR ''x'')]"
proof -
  have x: "url_char (CHR ''x'')" by (simp add: url_char_def)
  have all: "\<forall>c\<in>set (''blog.org/p/'' @ replicate n (CHR ''x'')). url_char c"
    using x by (auto simp: url_char_def)
  have tw: "takeWhile url_char (''blog.org/p/'' @ replicate n (CHR ''x'')) =
      ''blog.org/p/'' @ replicate n (CHR ''x'')"
    using all by (simp only: takeWhile_eq_all_conv) 
  have dw: "dropWhile url_char (''blog.org/p/'' @ replicate n (CHR ''x'')) = []"
    using all by (simp only: dropWhile_eq_Nil_conv)
  have "findall_urls (CHR ''h'' # ''ttps://blog.org/p/'' @ replicate n (CHR ''x'')) =
      [''https://blog.org/p/'' @ replicate n (CHR ''x'')]"
    by (subst findall_urls.simps) (simp add: url_char_def)
  then show ?thesis by simp
qed

lemma unique_loop_distinct:
  "distinct (acc @ us) \<Longrightarrow> unique_loop us (set acc) acc = acc @ us"
proof (induction us arbitrary: acc)
  case Nil
  then show ?case by simp
next
  case (Cons u us)
  then have "unique_loop us (set (acc @ [u])) (acc @ [u]) = (acc @ [u]) @ us"
    by (intro Cons.IH) auto
  with Cons.prems show ?case by simp
qed

lemma distinct_urls_120: "distinct urls_120"
proof -
  have "inj (\<lambda>n. ''https://blog.org/p/'' @ replicate n (CHR ''x''))"
  proof (rule injI)
    fix n m
    assume "''https://blog.org/p/'' @ replicate n (CHR ''x'') =
      ''https://blog.org/p/'' @ replicate m (CHR ''x'')"
    then have "length (replicate n (CHR ''x'')) = length (replicate m (CHR ''x''))"
      by simp
    then show "n = m" by simp
  qed
  then show ?thesis
    unfolding urls_120_def by (simp add: distinct_map inj_on_def inj_def)
qed

lemma extract_urls_120:
  "extract_urls (map (\<lambda>u. \<lparr>msg_text = Some u\<rparr>) urls_120) = urls_120"
proof -
  define f where "f = (\<lambda>n. ''https://blog.org/p/'' @ replicate n (CHR ''x''))"
  have fa: "findall_urls (f n) = [f n]" for n
    unfolding f_def by (rule findall_urls_blog)
  have "concat (map (\<lambda>n. findall_urls (f n)) ns) = map f ns" for ns
    by (induction ns) (simp_all add: fa)
  then have c: "concat (map findall_urls (map f ns)) = map f ns" for ns
    by (simp add: comp_def)
  have u: "urls_120 = map f [0..<120]"
    unfolding f_def urls_120_def ..
  have "extract_urls (map (\<lambda>u. \<lparr>msg_text = Some u\<rparr>) us) = concat (map findall_urls us)" for us
    by (simp add: extract_urls_def get_text_def comp_def)
  then show ?thesis
    by (simp only: u c)
qed

lemma fetch_slack_urls_120:
  "fetch_slack_urls slack_120 clk ''papers-running-list'' d =
     ([FoundUniqueUrls 120], Inr urls_120)"
proof -
  have "unique_loop urls_120 (set []) [] = [] @ urls_120"
    using distinct_urls_120 by (intro unique_loop_distinct) simp
  moreover have "length urls_120 = 120" by (simp add: urls_120_def)
  ultimately show ?thesis
    by (simp add: fetch_slack_urls_def slack_120_def papers_channel_def extract_urls_120)
qed


lemma fetch_slack_urls_log:
  "fetch_slack_urls S clk ch d = (log1, Inr us) \<Longrightarrow> us \<noteq> [] \<Longrightarrow>
     log1 = [FoundUniqueUrls (length us)]"
  unfolding fetch_slack_urls_def
  by (auto simp: Let_def split: sum.splits option.splits if_splits)

text \<open>
  C7: in a run whose two collectors return, whenever the loop of \<open>main\<close> ends
  without an exception it has resolved at most 50 references, namely the first 50 of
  the collector's output in its order, and nothing is printed about the others. With
  120 discovered references exactly 50 outcomes are produced, and the count that
  \<open>fetch_slack_urls\<close> printed is still 120. When no \<open>print\<close> of the resolver raises,
  the loop ends so.
\<close>

theorem cap_of_50:
  assumes "fetch_slack_urls S clk ch d = (log1, Inr slack_urls)"
    and "fetch_gmail_newsletters G clk lab d = (log2, Inr newsletters)"
  shows "(\<forall>log res. main_collect E S G clk fs ch lab d = (log, Inr res) \<longrightarrow>
      (\<exists>papers. res = (newsletters, papers) \<and>
         log = log1 @ log2 @ [ProcessedPapers (length (filter success papers))] \<and>
         length papers \<le> 50 \<and> map url papers = take 50 slack_urls \<and>
         (\<forall>i<length papers. \<forall>fs0.
            fst (download_paper_content E fs0 (slack_urls ! i)) = Inr (papers ! i)) \<and>
         (length slack_urls = 120 \<longrightarrow> length papers = 50 \<and> log1 = [FoundUniqueUrls 120]))) \<and>
    ((\<forall>s. print_out E s = None) \<longrightarrow>
      (\<exists>papers.
         main_collect E S G clk fs ch lab d =
           (log1 @ log2 @ [ProcessedPapers (length (filter success papers))],
            Inr (newsletters, papers)) \<and>
         length papers \<le> 50 \<and> map url papers = take 50 slack_urls \<and>
         (\<forall>i<length papers. \<forall>fs0.
            fst (download_paper_content E fs0 (slack_urls ! i)) = Inr (papers ! i)) \<and>
         (length slack_urls = 120 \<longrightarrow> length papers = 50 \<and> log1 = [FoundUniqueUrls 120])))"
proof -
  have props: "length rs \<le> 50 \<and> map url rs = take 50 slack_urls \<and>
      (\<forall>i<length rs. \<forall>fs0.
         fst (download_paper_content E fs0 (slack_urls ! i)) = Inr (rs ! i)) \<and>
      (length slack_urls = 120 \<longrightarrow> length rs = 50 \<and> log1 = [FoundUniqueUrls 120])"
    if mp: "main_papers E fs slack_urls = (Inr rs, fs')" for rs fs'
  proof -
    from main_papers_result [OF mp] have rs: "length rs = min 50 (length slack_urls)"
      "map url rs = take 50 slack_urls"
      "\<forall>i<length rs. \<forall>fs0. fst (download_paper_content E fs0 (slack_urls ! i)) = Inr (rs ! i)"
      by auto
    have "length slack_urls = 120 \<longrightarrow> length rs = 50 \<and> log1 = [FoundUniqueUrls 120]"
    proof
      assume l: "length slack_urls = 120"
      then have "slack_urls \<noteq> []" by auto
      with assms(1) l have "log1 = [FoundUniqueUrls 120]"
        using fetch_slack_urls_log [of S clk ch d log1 slack_urls] by simp
      with rs(1) l show "length rs = 50 \<and> log1 = [FoundUniqueUrls 120]" by simp
    qed
    with rs show ?thesis by simp
  qed
  have run: "main_collect E S G clk fs ch lab d =
      (log1 @ log2 @ [ProcessedPapers (length (filter success rs))], Inr (newsletters, rs))"
    if "main_papers E fs slack_urls = (Inr rs, fs')" for rs fs'
    using assms that by (simp add: main_collect_def)
  have h1: "\<forall>log res. main_collect E S G clk fs ch lab d = (log, Inr res) \<longrightarrow>
      (\<exists>papers. res = (newsletters, papers) \<and>
         log = log1 @ log2 @ [ProcessedPapers (length (filter success papers))] \<and>
         length papers \<le> 50 \<and> map url papers = take 50 slack_urls \<and>
         (\<forall>i<length papers. \<forall>fs0.
            fst (download_paper_content E fs0 (slack_urls ! i)) = Inr (papers ! i)) \<and>
         (length slack_urls = 120 \<longrightarrow> length papers = 50 \<and> log1 = [FoundUniqueUrls 120]))"
  proof (intro allI impI)
    fix log res
    assume a: "main_collect E S G clk fs ch lab d = (log, Inr res)"
    obtain x fs' where x: "main_papers E fs slack_urls = (x, fs')"
      by (cases "main_papers E fs slack_urls")
    show "\<exists>papers. res = (newsletters, papers) \<and>
         log = log1 @ log2 @ [ProcessedPapers (length (filter success papers))] \<and>
         length papers \<le> 50 \<and> map url papers = take 50 slack_urls \<and>
         (\<forall>i<length papers. \<forall>fs0.
            fst (download_paper_content E fs0 (slack_urls ! i)) = Inr (papers ! i)) \<and>
         (length slack_urls = 120 \<longrightarrow> length papers = 50 \<and> log1 = [FoundUniqueUrls 120])"
    proof (cases x)
      case (Inl e)
      with a x assms show ?thesis by (simp add: main_collect_def)
    next
      case (Inr rs)
      with x have mp: "main_papers E fs slack_urls = (Inr rs, fs')" by simp
      from run [OF mp] a have "res = (newsletters, rs)"
        "log = log1 @ log2 @ [ProcessedPapers (length (filter success rs))]" by simp_all
      with props [OF mp] show ?thesis by (intro exI [of _ rs]) simp
    qed
  qed
  have h2: "(\<forall>s. print_out E s = None) \<longrightarrow>
      (\<exists>papers.
         main_collect E S G clk fs ch lab d =
           (log1 @ log2 @ [ProcessedPapers (length (filter success papers))],
            Inr (newsletters, papers)) \<and>
         length papers \<le> 50 \<and> map url papers = take 50 slack_urls \<and>
         (\<forall>i<length papers. \<forall>fs0.
            fst (download_paper_content E fs0 (slack_urls ! i)) = Inr (papers ! i)) \<and>
         (length slack_urls = 120 \<longrightarrow> length papers = 50 \<and> log1 = [FoundUniqueUrls 120]))"
  proof
    assume p: "\<forall>s. print_out E s = None"
    from main_papers_total [OF p, of fs slack_urls]
    obtain rs fs' where mp: "main_papers E fs slack_urls = (Inr rs, fs')" by blast
    from run [OF mp] props [OF mp]
    show "\<exists>papers.
         main_collect E S G clk fs ch lab d =
           (log1 @ log2 @ [ProcessedPapers (length (filter success papers))],
            Inr (newsletters, papers)) \<and>
         length papers \<le> 50 \<and> map url papers = take 50 slack_urls \<and>
         (\<forall>i<length papers. \<forall>fs0.
            fst (download_paper_content E fs0 (slack_urls ! i)) = Inr (papers ! i)) \<and>
         (length slack_urls = 120 \<longrightarrow> length papers = 50 \<and> log1 = [FoundUniqueUrls 120])"
      by (intro exI [of _ rs]) simp
  qed
  show ?thesis by (intro conjI h1 h2)
qed

theorem cap_of_50_witness:
  "fetch_slack_urls slack_120 clock_sample ''papers-running-list'' 7 =
     ([FoundUniqueUrls 120], Inr urls_120) \<and>
   fetch_gmail_newsletters gmail_off clock_sample ''AI-Safety-Newsletters'' 7 =
     ([GmailNotConfigured], Inr []) \<and>
   length urls_120 = 120 \<and>
   (\<exists>papers.
      main_collect env_unreachable slack_120 gmail_off clock_sample Map.empty
          ''papers-running-list'' ''AI-Safety-Newsletters'' 7 =
        ([FoundUniqueUrls 120, GmailNotConfigured,
          ProcessedPapers (length (filter success papers))], Inr ([], papers)) \<and>
      length papers = 50 \<and> map url papers = take 50 urls_120)"
proof -
  have a: "fetch_slack_urls slack_120 clock_sample ''papers-running-list'' 7 =
     ([FoundUniqueUrls 120], Inr urls_120)"
    by (rule fetch_slack_urls_120)
  have b: "fetch_gmail_newsletters gmail_off clock_sample ''AI-Safety-Newsletters'' 7 =
     ([GmailNotConfigured], Inr [])"
    by (simp add: fetch_gmail_newsletters_def gmail_off_def)
  have c: "length urls_120 = 120" by (simp add: urls_120_def)
  have p: "\<forall>s. print_out env_unreachable s = None"
    by (simp add: env_unreachable_def env_ok_def)
  from cap_of_50 [OF a b, of env_unreachable Map.empty] p c
  have "\<exists>papers.
      main_collect env_unreachable slack_120 gmail_off clock_sample Map.empty
          ''papers-running-list'' ''AI-Safety-Newsletters'' 7 =
        ([FoundUniqueUrls 120] @ [GmailNotConfigured] @
          [ProcessedPapers (length (filter success papers))], Inr ([], papers)) \<and>
      length papers = 50 \<and> map url papers = take 50 urls_120"
    by blast
  with a b c show ?thesis by simp
qed

section \<open>The lines of a web document\<close>

text \<open>What a chunk is made of: a line of the text, stripped, cut and stripped again.\<close>

lemma splitlines_no_linebreak:
  "l \<in> set (splitlines s) \<Longrightarrow> x \<in> set l \<Longrightarrow> \<not> is_linebreak x"
proof (induction s arbitrary: l x rule: splitlines.induct)
  case 1
  then show ?case by simp
next
  case (2 c)
  then show ?case by (auto split: if_splits)
next
  case (3 c d cs)
  show ?case
  proof (cases "c = CHR 0x0D \<and> d = CHR 0x0A")
    case True
    with 3 show ?thesis by auto
  next
    case False
    note F = this
    show ?thesis
    proof (cases "is_linebreak c")
      case True
      with 3 F show ?thesis by auto
    next
      case nb: False
      with 3(4) F have "l \<in> set (cons_first c (splitlines (d # cs)))" by simp
      then show ?thesis
      proof (cases "splitlines (d # cs)")
        case Nil
        with \<open>l \<in> set (cons_first c (splitlines (d # cs)))\<close> 3(5) nb show ?thesis by auto
      next
        case (Cons k ks)
        with \<open>l \<in> set (cons_first c (splitlines (d # cs)))\<close>
        have "l = c # k \<or> l \<in> set ks" by auto
        then show ?thesis
        proof
          assume "l = c # k"
          with 3(5) have "x = c \<or> x \<in> set k" by auto
          then show ?thesis
            using nb 3(3) [OF F nb, of k x] Cons by auto
        next
          assume "l \<in> set ks"
          then show ?thesis using 3(3) [OF F nb, of l x] 3(5) Cons by auto
        qed
      qed
    qed
  qed
qed

lemma set_strip: "set (strip s) \<subseteq> set s"
proof -
  have "set (strip s) = set (dropWhile is_space (rev (dropWhile is_space s)))"
    by (simp add: strip_def)
  also have "\<dots> \<subseteq> set (rev (dropWhile is_space s))"
    using set_dropWhileD by fastforce
  also have "\<dots> \<subseteq> set s"
    using set_dropWhileD by fastforce
  finally show ?thesis .
qed

lemma set_split_2sp: "p \<in> set (split_2sp s) \<Longrightarrow> set p \<subseteq> set s"
proof (induction s arbitrary: p rule: split_2sp.induct)
  case 1
  then show ?case by simp
next
  case (2 c)
  then show ?case by simp
next
  case (3 c d cs)
  show ?case
  proof (cases "c = CHR '' '' \<and> d = CHR '' ''")
    case True
    with 3 show ?thesis by fastforce
  next
    case False
    with 3(3) have m: "p \<in> set (cons_first c (split_2sp (d # cs)))" by simp
    show ?thesis
    proof (cases "split_2sp (d # cs)")
      case Nil
      with m show ?thesis by auto
    next
      case (Cons k ks)
      with m have "p = c # k \<or> p \<in> set ks" by auto
      then show ?thesis
        using 3(2) [OF False, of k] 3(2) [OF False, of p] Cons by auto
    qed
  qed
qed

lemma last_dropWhile: "dropWhile P xs \<noteq> [] \<Longrightarrow> last (dropWhile P xs) = last xs"
  by (induction xs) (auto split: if_splits)

lemma strip_ends:
  assumes "strip s \<noteq> []"
  shows "\<not> is_space (hd (strip s)) \<and> \<not> is_space (last (strip s))"
proof -
  let ?d = "dropWhile is_space s"
  let ?e = "dropWhile is_space (rev ?d)"
  from assms have e: "?e \<noteq> []" by (simp add: strip_def)
  have d: "?d \<noteq> []"
  proof
    assume "?d = []"
    with e show False by simp
  qed
  have "last (strip s) = hd ?e" using e by (simp add: strip_def last_rev)
  moreover have "\<not> is_space (hd ?e)" using e by (rule hd_dropWhile)
  moreover have "hd (strip s) = last ?e" using e by (simp add: strip_def hd_rev)
  moreover have "last ?e = last (rev ?d)"
    using e by (rule last_dropWhile)
  moreover have "last (rev ?d) = hd ?d" using d by (simp add: last_rev)
  moreover have "\<not> is_space (hd ?d)" using d by (rule hd_dropWhile)
  ultimately show ?thesis by simp
qed

lemma strip_fixed:
  "c \<noteq> [] \<Longrightarrow> \<not> is_space (hd c) \<Longrightarrow> \<not> is_space (last c) \<Longrightarrow> strip c = c"
proof -
  assume a: "c \<noteq> []" "\<not> is_space (hd c)" "\<not> is_space (last c)"
  have 1: "dropWhile is_space c = c" using a by (simp add: dropWhile_eq_self_iff)
  have 2: "dropWhile is_space (rev c) = rev c"
    using a by (simp add: dropWhile_eq_self_iff hd_rev)
  show ?thesis by (simp add: strip_def 1 2)
qed

lemma chunks_of_good:
  assumes "c \<in> set (chunks_of text)"
  shows "c \<noteq> [] \<and> \<not> is_space (hd c) \<and> \<not> is_space (last c) \<and> (\<forall>x\<in>set c. \<not> is_linebreak x)"
proof -
  from assms obtain l p where l: "l \<in> set (splitlines text)"
    and p: "p \<in> set (split_2sp (strip l))" and c: "c = strip p" "c \<noteq> []"
    by (auto simp: chunks_of_def)
  have "set c \<subseteq> set l"
    using set_strip [of p] set_split_2sp [OF p] set_strip [of l] c(1) by blast
  then have "\<forall>x\<in>set c. \<not> is_linebreak x"
    using splitlines_no_linebreak [OF l] by blast
  with c strip_ends [of p] show ?thesis by simp
qed

text \<open>The lines of the joined chunks, and of every prefix of them.\<close>

lemma splitlines_one_line:
  "c \<noteq> [] \<Longrightarrow> \<forall>x\<in>set c. \<not> is_linebreak x \<Longrightarrow> splitlines c = [c]"
proof (induction c rule: splitlines.induct)
  case 1
  then show ?case by simp
next
  case (2 c)
  then show ?case by simp
next
  case (3 c d cs)
  then have "c \<noteq> CHR 0x0D" by (auto simp: is_linebreak_def)
  with 3 show ?case by simp
qed

lemma splitlines_line_then_rest:
  "\<forall>x\<in>set c. \<not> is_linebreak x \<Longrightarrow>
     splitlines (c @ CHR 0x0A # rest) = c # splitlines rest"
proof (induction c)
  case Nil
  have "is_linebreak (CHR 0x0A)" by (simp add: is_linebreak_def)
  then show ?case by (cases rest) simp_all
next
  case (Cons x c)
  then have nb: "\<not> is_linebreak x" and ih: "splitlines (c @ CHR 0x0A # rest) = c # splitlines rest"
    by auto
  from nb have ncr: "x \<noteq> CHR 0x0D" by (auto simp: is_linebreak_def)
  obtain d ds where ds: "c @ CHR 0x0A # rest = d # ds" by (cases "c @ CHR 0x0A # rest") auto
  have "splitlines (x # d # ds) = cons_first x (splitlines (d # ds))"
    using nb ncr by simp
  with ds ih show ?case by simp
qed

lemma splitlines_join_nl:
  "\<forall>c\<in>set cs. c \<noteq> [] \<and> (\<forall>x\<in>set c. \<not> is_linebreak x) \<Longrightarrow> splitlines (join_nl cs) = cs"
proof (induction cs rule: join_nl.induct)
  case 1
  then show ?case by simp
next
  case (2 x)
  then show ?case by (simp add: splitlines_one_line)
next
  case (3 x y ys)
  then show ?case by (simp add: splitlines_line_then_rest)
qed

lemma splitlines_take_one:
  assumes "\<forall>x\<in>set c. \<not> is_linebreak x" and "l \<in> set (splitlines (take n c))"
  shows "l = take n c \<and> l \<noteq> [] \<and> hd l = hd c"
proof -
  have nb: "\<forall>x\<in>set (take n c). \<not> is_linebreak x"
    using assms(1) in_set_takeD by fast
  have ne: "take n c \<noteq> []"
  proof
    assume "take n c = []"
    with assms(2) show False by simp
  qed
  then have "splitlines (take n c) = [take n c]" using nb by (rule splitlines_one_line)
  with assms(2) ne show ?thesis by (cases n; cases c) auto
qed

lemma splitlines_take_join_nl:
  assumes "\<forall>c\<in>set cs. c \<noteq> [] \<and> \<not> is_space (hd c) \<and> (\<forall>x\<in>set c. \<not> is_linebreak x)"
  shows "(\<forall>l\<in>set (splitlines (take n (join_nl cs))). l \<noteq> [] \<and> \<not> is_space (hd l)) \<and>
         (\<forall>l\<in>set (butlast (splitlines (take n (join_nl cs)))). l \<in> set cs)"
  using assms
proof (induction cs arbitrary: n rule: join_nl.induct)
  case 1
  then show ?case by simp
next
  case (2 x)
  then have nb: "\<forall>c\<in>set x. \<not> is_linebreak c" and sp: "\<not> is_space (hd x)" by auto
  have a: "\<forall>l\<in>set (splitlines (take n x)). l \<noteq> [] \<and> \<not> is_space (hd l)"
    using splitlines_take_one [OF nb] sp by metis
  have "butlast (splitlines (take n x)) = []"
  proof (cases "take n x = []")
    case True
    show ?thesis unfolding True by simp
  next
    case False
    have "\<forall>c\<in>set (take n x). \<not> is_linebreak c" using nb in_set_takeD by fast
    with False have "splitlines (take n x) = [take n x]" by (rule splitlines_one_line)
    then show ?thesis by simp
  qed
  with a show ?case by simp
next
  case (3 x y ys)
  then have nb: "\<forall>c\<in>set x. \<not> is_linebreak c" and sp: "\<not> is_space (hd x)" and ne: "x \<noteq> []"
    by auto
  have rest: "\<forall>c\<in>set (y # ys). c \<noteq> [] \<and> \<not> is_space (hd c) \<and> (\<forall>x\<in>set c. \<not> is_linebreak x)"
    using 3(2) by simp
  show ?case
  proof (cases "n \<le> length x")
    case True
    then have t: "take n (join_nl (x # y # ys)) = take n x" by simp
    have a: "\<forall>l\<in>set (splitlines (take n x)). l \<noteq> [] \<and> \<not> is_space (hd l)"
      using splitlines_take_one [OF nb] sp by metis
    have "butlast (splitlines (take n x)) = []"
    proof (cases "take n x = []")
      case True
      show ?thesis unfolding True by simp
    next
      case False
      have "\<forall>c\<in>set (take n x). \<not> is_linebreak c" using nb in_set_takeD by fast
      with False have "splitlines (take n x) = [take n x]" by (rule splitlines_one_line)
      then show ?thesis by simp
    qed
    with a t show ?thesis by simp
  next
    case False
    then obtain m where m: "n - length x = Suc m" by (cases "n - length x") auto
    with False have t: "take n (join_nl (x # y # ys)) = x @ CHR 0x0A # take m (join_nl (y # ys))"
      by simp
    have s: "splitlines (take n (join_nl (x # y # ys))) =
        x # splitlines (take m (join_nl (y # ys)))"
      unfolding t using nb by (rule splitlines_line_then_rest)
    have ih: "(\<forall>l\<in>set (splitlines (take m (join_nl (y # ys)))). l \<noteq> [] \<and> \<not> is_space (hd l)) \<and>
         (\<forall>l\<in>set (butlast (splitlines (take m (join_nl (y # ys))))). l \<in> set (y # ys))"
      using 3(1) [OF rest] .
    show ?thesis
      unfolding s using ih ne sp by (auto split: if_splits)
  qed
qed

lemma clean_whitespace_lines:
  "splitlines (clean_whitespace text) = chunks_of text"
  unfolding clean_whitespace_def
  using chunks_of_good [of _ "text"] by (intro splitlines_join_nl) blast

lemma clean_whitespace_take_lines:
  "(\<forall>l\<in>set (splitlines (take n (clean_whitespace text))). l \<noteq> [] \<and> \<not> is_space (hd l)) \<and>
   (\<forall>l\<in>set (butlast (splitlines (take n (clean_whitespace text)))). strip l = l) \<and>
   (length (clean_whitespace text) \<le> n \<longrightarrow>
      (\<forall>l\<in>set (splitlines (take n (clean_whitespace text))). strip l = l))"
proof -
  have good: "\<forall>c\<in>set (chunks_of text). c \<noteq> [] \<and> \<not> is_space (hd c) \<and> (\<forall>x\<in>set c. \<not> is_linebreak x)"
    using chunks_of_good [of _ "text"] by blast
  have fixed: "c \<in> set (chunks_of text) \<Longrightarrow> strip c = c" for c
    using chunks_of_good [of c "text"] by (simp add: strip_fixed)
  have a: "(\<forall>l\<in>set (splitlines (take n (clean_whitespace text))). l \<noteq> [] \<and> \<not> is_space (hd l)) \<and>
      (\<forall>l\<in>set (butlast (splitlines (take n (clean_whitespace text)))). l \<in> set (chunks_of text))"
    unfolding clean_whitespace_def using good by (rule splitlines_take_join_nl)
  have "length (clean_whitespace text) \<le> n \<longrightarrow>
      (\<forall>l\<in>set (splitlines (take n (clean_whitespace text))). strip l = l)"
    using fixed by (auto simp: clean_whitespace_lines)
  with a fixed show ?thesis by blast
qed

text \<open>
  C10, as the code has it: the content of a successful web outcome is the first 50000
  characters of the non-empty, stripped chunks joined by single newlines, and the
  lines of the joined text are these chunks. No line of the content is empty and none
  begins with whitespace; every line but the last is a whole chunk and has no
  trailing whitespace either; the last line has none when the joined text fits into
  the 50000 characters.
\<close>

theorem web_content_lines:
  assumes "fetch_webpage E fs u = (Inr r, fs')" and "success r"
  shows "\<exists>response page_text.
      requests_get E u [(''User-Agent'', ''Mozilla/5.0'')] = Inr response \<and>
      soup_get_text E (resp_text response) = Inr page_text \<and>
      content r = take 50000 (join_nl (chunks_of page_text)) \<and>
      (\<forall>c\<in>set (chunks_of page_text). c \<noteq> [] \<and> strip c = c) \<and>
      splitlines (join_nl (chunks_of page_text)) = chunks_of page_text \<and>
      (\<forall>l\<in>set (splitlines (content r)). l \<noteq> [] \<and> \<not> is_space (hd l)) \<and>
      (\<forall>l\<in>set (butlast (splitlines (content r))). strip l = l) \<and>
      (length (join_nl (chunks_of page_text)) \<le> 50000 \<longrightarrow>
         (\<forall>l\<in>set (splitlines (content r)). strip l = l))"
proof -
  from assms obtain response page_text where
    a: "requests_get E u [(''User-Agent'', ''Mozilla/5.0'')] = Inr response"
      "soup_get_text E (resp_text response) = Inr page_text"
      "content r = take 50000 (clean_whitespace page_text)"
    by (auto simp: fetch_webpage_def fetch_webpage_try_def split: sum.splits option.splits)
  have "\<forall>c\<in>set (chunks_of page_text). c \<noteq> [] \<and> strip c = c"
    using chunks_of_good [of _ page_text] by (simp add: strip_fixed)
  with a clean_whitespace_lines [of page_text] clean_whitespace_take_lines [of 50000 page_text]
  show ?thesis
    by (intro exI [of _ response] exI [of _ page_text]) (simp add: clean_whitespace_def)
qed

theorem web_content_lines_witness:
  "fetch_webpage env_page Map.empty ''https://blog.org/post'' =
     (Inr \<lparr>url = ''https://blog.org/post'', type = webpage,
           content = [CHR ''T'', CHR ''i'', CHR ''t'', CHR ''l'', CHR ''e'', CHR 0x0A, CHR ''a'',
                      CHR '' '', CHR ''b'', CHR 0x0A, CHR ''c'', CHR 0x0A, CHR ''d''],
           success = True, error = None\<rparr>, Map.empty) \<and>
   splitlines [CHR ''T'', CHR ''i'', CHR ''t'', CHR ''l'', CHR ''e'', CHR 0x0A, CHR ''a'',
               CHR '' '', CHR ''b'', CHR 0x0A, CHR ''c'', CHR 0x0A, CHR ''d''] =
     [''Title'', ''a b'', ''c'', ''d''] \<and>
   strip ''Title'' = ''Title'' \<and> strip ''a b'' = ''a b'' \<and> strip ''c'' = ''c'' \<and>
   strip ''d'' = ''d''"
proof -
  let ?c = "[CHR ''T'', CHR ''i'', CHR ''t'', CHR ''l'', CHR ''e'', CHR 0x0A, CHR ''a'',
             CHR '' '', CHR ''b'', CHR 0x0A, CHR ''c'', CHR 0x0A, CHR ''d'']"
  let ?r = "\<lparr>url = ''https://blog.org/post'', type = webpage, content = ?c,
            success = True, error = None\<rparr>"
  have a: "fetch_webpage env_page Map.empty ''https://blog.org/post'' = (Inr ?r, Map.empty)"
    by (simp add: resolver_defs whitespace_defs env_page_def)
  have b: "success ?r" by simp
  have c: "splitlines ?c = [''Title'', ''a b'', ''c'', ''d'']"
    by (simp add: is_linebreak_def)
  have d: "strip ''Title'' = ''Title'' \<and> strip ''a b'' = ''a b'' \<and> strip ''c'' = ''c'' \<and>
      strip ''d'' = ''d''"
    by (simp add: strip_def is_space_def)
  from web_content_lines [OF a b] a c d show ?thesis by blast
qed

lemma split_2sp_long_line:
  "split_2sp (replicate (Suc n) (CHR ''a'') @ '' b'') = [replicate (Suc n) (CHR ''a'') @ '' b'']"
  by (induction n) simp_all

lemma clean_whitespace_long_line:
  "clean_whitespace (replicate (Suc n) (CHR ''a'') @ '' b'') =
     replicate (Suc n) (CHR ''a'') @ '' b''"
proof -
  let ?s = "replicate (Suc n) (CHR ''a'') @ '' b''"
  have nb: "\<forall>x\<in>set ?s. \<not> is_linebreak x" by (auto simp: is_linebreak_def)
  have "?s \<noteq> []" by simp
  then have l: "splitlines ?s = [?s]" using nb by (rule splitlines_one_line)
  have st: "strip ?s = ?s" by (rule strip_fixed) (simp_all add: is_space_def)
  have "chunks_of ?s = [?s]"
    unfolding chunks_of_def l by (simp only: list.map st split_2sp_long_line) simp
  then show ?thesis by (simp only: clean_whitespace_def join_nl.simps)
qed

text \<open>
  C10 as stated fails where the cap cuts a line: the page text is 49999 times \<open>a\<close>,
  a space and \<open>b\<close>, which is one chunk of 50001 characters; the content is its first
  50000 characters, a single line that ends in a space.
\<close>

theorem truncated_line_ends_in_space:
  "fst (download_paper_content env_long_page Map.empty ''https://blog.org/post'') =
     Inr \<lparr>url = ''https://blog.org/post'', type = webpage,
          content = replicate 49999 (CHR ''a'') @ '' '', success = True, error = None\<rparr> \<and>
   splitlines (replicate 49999 (CHR ''a'') @ '' '') = [replicate 49999 (CHR ''a'') @ '' ''] \<and>
   last (replicate 49999 (CHR ''a'') @ '' '') = CHR '' '' \<and> is_space (CHR '' '')"
proof -
  have n: "(49999::nat) = Suc 49998" by simp
  have cw: "clean_whitespace (replicate 49999 (CHR ''a'') @ '' b'') =
      replicate 49999 (CHR ''a'') @ '' b''"
    unfolding n by (rule clean_whitespace_long_line)
  have tk: "take 50000 (replicate 49999 (CHR ''a'') @ '' b'') = replicate 49999 (CHR ''a'') @ '' ''"
    by simp
  have nb: "\<forall>x\<in>set (replicate 49999 (CHR ''a'') @ '' ''). \<not> is_linebreak x"
    by (auto simp: is_linebreak_def)
  have "replicate 49999 (CHR ''a'') @ '' '' \<noteq> []" by simp
  then have sl: "splitlines (replicate 49999 (CHR ''a'') @ '' '') = [replicate 49999 (CHR ''a'') @ '' '']"
    using nb by (rule splitlines_one_line)
  have "fst (download_paper_content env_long_page Map.empty ''https://blog.org/post'') =
     Inr \<lparr>url = ''https://blog.org/post'', type = webpage,
          content = take 50000 (clean_whitespace (replicate 49999 (CHR ''a'') @ '' b'')),
          success = True, error = None\<rparr>"
    by (simp add: download_paper_content_def fetch_webpage_def fetch_webpage_try_def
        endswith_def suffix_to_prefix env_long_page_def env_ok_def ok_response_def)
  then show ?thesis
    unfolding cw tk using sl by (simp add: is_space_def)
qed

section \<open>The body of a newsletter\<close>

lemma body_of_parts_find:
  "body_of_parts dec ps =
     (case find (\<lambda>p. (mimeType p = ''text/plain'' \<or> mimeType p = ''text/html'') \<and>
                      get_data (part_data p) \<noteq> []) ps of
        None \<Rightarrow> Inr []
      | Some p \<Rightarrow> dec (get_data (part_data p)))"
  by (induction ps) (auto simp: Let_def)

text \<open>
  C2, as the code has it: for a multi-part payload \<open>_get_email_body\<close> returns the
  decoding of the first part, in part order, that is \<open>text/plain\<close> or \<open>text/html\<close> and
  has non-empty data, and the empty string when there is no such part. So a plain-text
  part with data is returned when no part of either kind with data comes before it.
\<close>

theorem first_text_part_is_body:
  assumes "parts pl = Some ps"
  shows "get_email_body dec pl =
      (case find (\<lambda>p. (mimeType p = ''text/plain'' \<or> mimeType p = ''text/html'') \<and>
                       get_data (part_data p) \<noteq> []) ps of
         None \<Rightarrow> Inr []
       | Some p \<Rightarrow> dec (get_data (part_data p))) \<and>
    (\<forall>pre p post. ps = pre @ p # post \<and> mimeType p = ''text/plain'' \<and>
        get_data (part_data p) \<noteq> [] \<and>
        (\<forall>q\<in>set pre. \<not> ((mimeType q = ''text/plain'' \<or> mimeType q = ''text/html'') \<and>
                          get_data (part_data q) \<noteq> [])) \<longrightarrow>
        get_email_body dec pl = dec (get_data (part_data p)))"
proof -
  let ?sel = "\<lambda>p. (mimeType p = ''text/plain'' \<or> mimeType p = ''text/html'') \<and>
                      get_data (part_data p) \<noteq> []"
  have eq: "get_email_body dec pl =
      (case find ?sel ps of None \<Rightarrow> Inr [] | Some p \<Rightarrow> dec (get_data (part_data p)))"
    using assms by (simp add: get_email_body_def body_of_parts_find)
  have "find ?sel (pre @ p # post) = Some p"
    if "?sel p" and "\<forall>q\<in>set pre. \<not> ?sel q" for pre :: "msg_part list" and p post
    using that by (induction pre) auto
  with eq show ?thesis by auto
qed

theorem first_text_part_is_body_witness:
  "parts payload_plain_first = Some
     [\<lparr>mimeType = ''multipart/related'', part_data = None\<rparr>,
      \<lparr>mimeType = ''text/plain'', part_data = Some ''aGk=''\<rparr>,
      \<lparr>mimeType = ''text/html'', part_data = Some ''PGI-aGk8L2I-''\<rparr>] \<and>
   get_email_body sample_b64decode payload_plain_first = Inr ''hi''"
proof -
  have a: "parts payload_plain_first = Some
     [\<lparr>mimeType = ''multipart/related'', part_data = None\<rparr>,
      \<lparr>mimeType = ''text/plain'', part_data = Some ''aGk=''\<rparr>,
      \<lparr>mimeType = ''text/html'', part_data = Some ''PGI-aGk8L2I-''\<rparr>]"
    by (simp add: payload_plain_first_def)
  from first_text_part_is_body [OF a, of sample_b64decode] a show ?thesis
    by (simp add: get_data_def sample_b64decode_def)
qed

text \<open>
  C2 as stated fails when the HTML part comes first: both parts decode, and the body
  is the HTML.
\<close>

theorem html_part_first_wins:
  "get_email_body sample_b64decode payload_html_first = Inr ''<b>hi</b>'' \<and>
   sample_b64decode ''aGk='' = Inr ''hi'' \<and>
   sample_b64decode ''PGI-aGk8L2I-'' = Inr ''<b>hi</b>''"
  by (simp add: get_email_body_def payload_html_first_def get_data_def sample_b64decode_def)


end
